theory Spec2Isabelle
  imports Main "HOL-Library.Word" "HOL-Library.Sublist"
begin

unbundle bit_operations_syntax

section \<open>The SD card driver over SPI (drivers/sd-card/sd.c)\<close>

text \<open>
  A shallow embedding of \<^verbatim>\<open>sd.c\<close>. Every C function of the file is one HOL function of the
  same name. The C integers are words of their width, so every wrap-around and every
  truncation of the source happens in the model too. The status codes are a datatype,
  and every early \<^verbatim>\<open>return NO_OS_FAILURE\<close> is a branch.
\<close>

subsection \<open>Types, constants and macros\<close>

type_synonym byte = "8 word"

datatype ret = NO_OS_SUCCESS | NO_OS_FAILURE

definition BIT_CCS :: "32 word" where
  "BIT_CCS = push_bit 30 1"

definition BIT_APPLICATION_CMD :: byte where
  "BIT_APPLICATION_CMD = push_bit 7 1"

definition CMD :: "byte \<Rightarrow> byte" where
  "CMD x = x + 64"

definition ACMD :: "byte \<Rightarrow> byte" where
  "ACMD x = CMD x OR BIT_APPLICATION_CMD"

definition CMD0_RETRY_NUMBER :: "32 word" where
  "CMD0_RETRY_NUMBER = 5"

definition WAIT_RESP_TIMEOUT :: "32 word" where
  "WAIT_RESP_TIMEOUT = 0x1FFFFFF"

definition R1_READY_STATE :: byte where
  "R1_READY_STATE = 0x00"

definition R1_IDLE_STATE :: byte where
  "R1_IDLE_STATE = 0x01"

definition R1_LEN :: "32 word" where
  "R1_LEN = 1"

definition R3_LEN :: "32 word" where
  "R3_LEN = 5"

definition CSD_LEN :: nat where
  "CSD_LEN = 18"

definition CRC_LEN :: nat where
  "CRC_LEN = 2"

definition CMD_LEN :: nat where
  "CMD_LEN = 8"

definition STUFF_ARG :: "32 word" where
  "STUFF_ARG = 0x00000000"

definition CMD8_ARG :: "32 word" where
  "CMD8_ARG = 0x000001AA"

definition ACMD41_ARG :: "32 word" where
  "ACMD41_ARG = 0x40000000"

text \<open>
  Modelled from the spec: \<^verbatim>\<open>sd.h\<close> is not among the sources, so the block length it
  defines is taken from the specification (a block is 512 bytes), in agreement with
  \<^verbatim>\<open>DATA_BLOCK_BITS\<close> of \<^verbatim>\<open>sd.c\<close>.
\<close>

definition DATA_BLOCK_LEN :: nat where
  "DATA_BLOCK_LEN = 512"

definition DATA_BLOCK_BITS :: nat where
  "DATA_BLOCK_BITS = 9"

definition MASK_ADDR_IN_BLOCK :: "64 word" where
  "MASK_ADDR_IN_BLOCK = 511"

definition MASK_BLOCK_NUMBER :: "64 word" where
  "MASK_BLOCK_NUMBER = NOT MASK_ADDR_IN_BLOCK"

definition START_1_BLOCK_TOKEN :: byte where
  "START_1_BLOCK_TOKEN = 0xFE"

definition START_N_BLOCK_TOKEN :: byte where
  "START_N_BLOCK_TOKEN = 0xFC"

definition STOP_TRANSMISSION_TOKEN :: byte where
  "STOP_TRANSMISSION_TOKEN = 0xFD"

definition MASK_RESPONSE_TOKEN :: byte where
  "MASK_RESPONSE_TOKEN = 0x0E"

definition MASK_ERROR_TOKEN :: byte where
  "MASK_ERROR_TOKEN = 0xF0"

lemmas sd_consts =
  BIT_CCS_def BIT_APPLICATION_CMD_def CMD_def ACMD_def CMD0_RETRY_NUMBER_def
  WAIT_RESP_TIMEOUT_def R1_READY_STATE_def R1_IDLE_STATE_def R1_LEN_def R3_LEN_def
  CSD_LEN_def CRC_LEN_def CMD_LEN_def STUFF_ARG_def CMD8_ARG_def ACMD41_ARG_def
  DATA_BLOCK_LEN_def DATA_BLOCK_BITS_def MASK_ADDR_IN_BLOCK_def MASK_BLOCK_NUMBER_def
  START_1_BLOCK_TOKEN_def START_N_BLOCK_TOKEN_def STOP_TRANSMISSION_TOKEN_def
  MASK_RESPONSE_TOKEN_def MASK_ERROR_TOKEN_def

subsection \<open>The session descriptor, the command descriptor and the byte pipe\<close>

text \<open>
  Modelled from the spec: \<^verbatim>\<open>struct sd_desc\<close> and \<^verbatim>\<open>struct cmd_desc\<close> are declared in
  \<^verbatim>\<open>sd.h\<close>, which is not among the sources. The fields are the ones \<^verbatim>\<open>sd.c\<close> uses, with
  the widths the specification gives: a reference to the byte pipe, the 64-bit
  \<^verbatim>\<open>memory_size\<close> and a scratch buffer; an 8-bit command code, a 32-bit argument, the
  response length and the response bytes. The field \<^verbatim>\<open>response\<close> holds the bytes a command
  has written (no caller reads a byte beyond them).
\<close>

record 'h sd_desc =
  spi_desc :: 'h
  memory_size :: "64 word"
  buff :: "byte list"

record cmd_desc =
  cmd :: byte
  arg :: "32 word"
  response :: "byte list"
  response_len :: "32 word"

text \<open>
  Modelled from the spec: \<^verbatim>\<open>spi_write_and_read\<close> is the external byte pipe. One call
  \<^verbatim>\<open>exchange(buf, n)\<close> transmits the \<open>n\<close> bytes of the buffer, overwrites each with
  the byte received in its slot, and reports success or failure. The pipe is a
  parameter of the model: any function from the pipe's handle, the state of the world
  behind it and the transmitted bytes to the status, the received bytes and the next
  state. A slot for which the function returns no byte keeps the transmitted byte, so
  the buffer keeps its length. The machine state is the descriptor, the state behind
  the pipe, and the record of every call of the pipe so far: the bytes transmitted, the
  bytes the buffer holds afterwards, and the status.
\<close>

type_synonym ('h, 'p) exchange = "'h \<Rightarrow> 'p \<Rightarrow> byte list \<Rightarrow> bool \<times> byte list \<times> 'p"

record transfer =
  tx_bytes :: "byte list"
  rx_bytes :: "byte list"
  transfer_ok :: bool

record ('h, 'p) machine =
  desc :: "'h sd_desc"
  pipe :: 'p
  wire :: "transfer list"

definition spi_write_and_read ::
  "('h, 'p) exchange \<Rightarrow> 'h \<Rightarrow> byte list \<Rightarrow> ('h, 'p) machine \<Rightarrow> ret \<times> byte list \<times> ('h, 'p) machine"
where
  "spi_write_and_read xch h buf s =
     (case xch h (pipe s) buf of
        (ok, rx, p') \<Rightarrow>
          let buf' = take (length buf) rx @ drop (length rx) buf in
          (if ok then NO_OS_SUCCESS else NO_OS_FAILURE, buf',
           s\<lparr>pipe := p',
             wire := wire s @ [\<lparr>tx_bytes = buf, rx_bytes = buf', transfer_ok = ok\<rparr>]\<rparr>))"

text \<open>The bytes the driver has transmitted, one entry per call of the pipe.\<close>

definition sent :: "('h, 'p) machine \<Rightarrow> byte list list" where
  "sent s = map tx_bytes (wire s)"

text \<open>\<^verbatim>\<open>memset(p, v, n)\<close> and \<^verbatim>\<open>memcpy(p + off, src, n)\<close> on a buffer held as a list.\<close>

definition memset :: "byte list \<Rightarrow> byte \<Rightarrow> nat \<Rightarrow> byte list" where
  "memset p v n = replicate n v @ drop n p"

definition memcpy :: "byte list \<Rightarrow> nat \<Rightarrow> byte list \<Rightarrow> byte list" where
  "memcpy p off src = take off p @ src @ drop (off + length src) p"

definition set_buff :: "byte list \<Rightarrow> ('h, 'p) machine \<Rightarrow> ('h, 'p) machine" where
  "set_buff b s = s\<lparr>desc := (desc s)\<lparr>buff := b\<rparr>\<rparr>"

text \<open>An exchange of the first \<open>n\<close> bytes of the descriptor's scratch buffer, in place.\<close>

definition spi_buff ::
  "('h, 'p) exchange \<Rightarrow> nat \<Rightarrow> ('h, 'p) machine \<Rightarrow> ret \<times> ('h, 'p) machine"
where
  "spi_buff xch n s =
     (case spi_write_and_read xch (spi_desc (desc s)) (take n (buff (desc s))) s of
        (r, rx, s') \<Rightarrow> (r, set_buff (rx @ drop n (buff (desc s'))) s'))"

subsection \<open>The two polling loops\<close>

function wait_for_response_loop ::
  "('h, 'p) exchange \<Rightarrow> 32 word \<Rightarrow> byte \<Rightarrow> ('h, 'p) machine \<Rightarrow> ret \<times> byte \<times> ('h, 'p) machine"
where
  "wait_for_response_loop xch timeout data_out s =
     (if data_out = 0xFF then
        (case spi_write_and_read xch (spi_desc (desc s)) [data_out] s of
           (r, rx, s') \<Rightarrow>
             if r \<noteq> NO_OS_SUCCESS then (NO_OS_FAILURE, hd rx, s')
             else if timeout = 0 then (NO_OS_FAILURE, hd rx, s')
             else wait_for_response_loop xch (timeout - 1) (hd rx) s')
      else (NO_OS_SUCCESS, data_out, s))"
  by pat_completeness auto
termination
  by (relation "measure (\<lambda>(xch, timeout, data_out, s). unat timeout)")
     (auto simp: unat_minus_one unat_gt_0)

declare wait_for_response_loop.simps [simp del]

definition wait_for_response ::
  "('h, 'p) exchange \<Rightarrow> ('h, 'p) machine \<Rightarrow> ret \<times> byte \<times> ('h, 'p) machine"
where
  "wait_for_response xch s = wait_for_response_loop xch WAIT_RESP_TIMEOUT 0xFF s"

function wait_until_not_busy_loop ::
  "('h, 'p) exchange \<Rightarrow> 32 word \<Rightarrow> byte \<Rightarrow> ('h, 'p) machine \<Rightarrow> ret \<times> ('h, 'p) machine"
where
  "wait_until_not_busy_loop xch timeout data s =
     (if data = 0x00 then
        (case spi_write_and_read xch (spi_desc (desc s)) [0xFF] s of
           (r, rx, s') \<Rightarrow>
             if r \<noteq> NO_OS_SUCCESS then (NO_OS_FAILURE, s')
             else if timeout = 0 then (NO_OS_FAILURE, s')
             else wait_until_not_busy_loop xch (timeout - 1) (hd rx) s')
      else (NO_OS_SUCCESS, s))"
  by pat_completeness auto
termination
  by (relation "measure (\<lambda>(xch, timeout, data, s). unat timeout)")
     (auto simp: unat_minus_one unat_gt_0)

declare wait_until_not_busy_loop.simps [simp del]

definition wait_until_not_busy ::
  "('h, 'p) exchange \<Rightarrow> ('h, 'p) machine \<Rightarrow> ret \<times> ('h, 'p) machine"
where
  "wait_until_not_busy xch s = wait_until_not_busy_loop xch WAIT_RESP_TIMEOUT 0x00 s"

subsection \<open>The number of blocks of a request\<close>

definition get_nb_of_blocks :: "64 word \<Rightarrow> 64 word \<Rightarrow> 32 word" where
  "get_nb_of_blocks address len =
     ucast (drop_bit DATA_BLOCK_BITS (address + len - 1)
            - drop_bit DATA_BLOCK_BITS address + 1)"

subsection \<open>The command engine\<close>

text \<open>Lines 173 to 183 of \<^verbatim>\<open>send_command\<close>: the command prepared in the scratch buffer.\<close>

definition prepare_command :: "cmd_desc \<Rightarrow> byte list \<Rightarrow> byte list" where
  "prepare_command cd b0 =
     (let b = memset b0 0xFF CMD_LEN;
          b = b[1 := cmd cd AND NOT BIT_APPLICATION_CMD];
          b = b[2 := ucast (drop_bit 24 (arg cd) AND 0xff)];
          b = b[3 := ucast (drop_bit 16 (arg cd) AND 0xff)];
          b = b[4 := ucast (drop_bit 8 (arg cd) AND 0xff)];
          b = b[5 := ucast (arg cd AND 0xff)]
      in if cmd cd = CMD 0 then b[6 := 0x95]
         else if cmd cd = CMD 8 then b[6 := 0x87]
         else b)"

text \<open>Lines 173 to 199: prepare the command, send it, read the response.\<close>

definition send_command_body ::
  "('h, 'p) exchange \<Rightarrow> cmd_desc \<Rightarrow> ('h, 'p) machine \<Rightarrow> ret \<times> cmd_desc \<times> ('h, 'p) machine"
where
  "send_command_body xch cd s =
     (case spi_buff xch CMD_LEN (set_buff (prepare_command cd (buff (desc s))) s) of
        (r, s1) \<Rightarrow>
          if r \<noteq> NO_OS_SUCCESS then (NO_OS_FAILURE, cd, s1)
          else
            (case wait_for_response xch s1 of
               (r, r0, s2) \<Rightarrow>
                 if r \<noteq> NO_OS_SUCCESS then (NO_OS_FAILURE, cd\<lparr>response := [r0]\<rparr>, s2)
                 else if response_len cd - 1 > 0 then
                   (case spi_write_and_read xch (spi_desc (desc s2))
                           (replicate (unat (response_len cd - 1)) 0xFF) s2 of
                      (r, rx, s3) \<Rightarrow>
                        if r \<noteq> NO_OS_SUCCESS then (NO_OS_FAILURE, cd\<lparr>response := r0 # rx\<rparr>, s3)
                        else (NO_OS_SUCCESS, cd\<lparr>response := r0 # rx\<rparr>, s3))
                 else (NO_OS_SUCCESS, cd\<lparr>response := [r0]\<rparr>, s2)))"

function send_command ::
  "('h, 'p) exchange \<Rightarrow> cmd_desc \<Rightarrow> ('h, 'p) machine \<Rightarrow> ret \<times> cmd_desc \<times> ('h, 'p) machine"
where
  "send_command xch cd s =
     (if cmd cd AND BIT_APPLICATION_CMD \<noteq> 0 then
        (case send_command xch
                \<lparr>cmd = CMD 55, arg = STUFF_ARG, response = [], response_len = R1_LEN\<rparr> s of
           (r, cmd_desc_local, s1) \<Rightarrow>
             if r \<noteq> NO_OS_SUCCESS then (NO_OS_FAILURE, cd, s1)
             else if response cmd_desc_local ! 0 \<noteq> R1_IDLE_STATE then (NO_OS_FAILURE, cd, s1)
             else send_command_body xch cd s1)
      else send_command_body xch cd s)"
  by pat_completeness auto
termination
  by (relation "measure (\<lambda>(xch, cd, s). if cmd cd AND BIT_APPLICATION_CMD \<noteq> 0 then 1 else 0)")
     (auto simp: CMD_def BIT_APPLICATION_CMD_def)

declare send_command.simps [simp del]

subsection \<open>The block engine\<close>

text \<open>
  Both functions work on the region of 512 bytes their pointer argument \<open>data\<close> points
  to, and return the region as the exchange has left it.
\<close>

definition write_block ::
  "('h, 'p) exchange \<Rightarrow> byte list \<Rightarrow> 32 word \<Rightarrow> ('h, 'p) machine \<Rightarrow> ret \<times> byte list \<times> ('h, 'p) machine"
where
  "write_block xch data nb_of_blocks s =
     (case spi_buff xch 1
             (set_buff ((buff (desc s))
                [0 := (if nb_of_blocks = 1 then START_1_BLOCK_TOKEN else START_N_BLOCK_TOKEN)]) s) of
        (r, s1) \<Rightarrow>
          if r \<noteq> NO_OS_SUCCESS then (NO_OS_FAILURE, data, s1)
          else
            (case spi_write_and_read xch (spi_desc (desc s1)) (take DATA_BLOCK_LEN data) s1 of
               (r, rx, s2) \<Rightarrow>
                 let data' = rx @ drop DATA_BLOCK_LEN data in
                 if r \<noteq> NO_OS_SUCCESS then (NO_OS_FAILURE, data', s2)
                 else
                   (case spi_buff xch CRC_LEN
                           (set_buff ((buff (desc s2))[0 := 0xFF, 1 := 0xFF]) s2) of
                      (r, s3) \<Rightarrow>
                        if r \<noteq> NO_OS_SUCCESS then (NO_OS_FAILURE, data', s3)
                        else
                          (case wait_for_response xch s3 of
                             (r, resp, s4) \<Rightarrow>
                               if r \<noteq> NO_OS_SUCCESS then (NO_OS_FAILURE, data', s4)
                               else if resp AND MASK_RESPONSE_TOKEN \<noteq> 0x4
                               then (NO_OS_FAILURE, data', s4)
                               else
                                 (case wait_until_not_busy xch s4 of
                                    (r, s5) \<Rightarrow>
                                      if r \<noteq> NO_OS_SUCCESS then (NO_OS_FAILURE, data', s5)
                                      else (NO_OS_SUCCESS, data', s5))))))"

definition read_block ::
  "('h, 'p) exchange \<Rightarrow> byte list \<Rightarrow> ('h, 'p) machine \<Rightarrow> ret \<times> byte list \<times> ('h, 'p) machine"
where
  "read_block xch data s =
     (case wait_for_response xch s of
        (r, resp, s1) \<Rightarrow>
          if r \<noteq> NO_OS_SUCCESS then (NO_OS_FAILURE, data, s1)
          else if resp AND MASK_ERROR_TOKEN = 0 then (NO_OS_FAILURE, data, s1)
          else if resp \<noteq> START_1_BLOCK_TOKEN then (NO_OS_FAILURE, data, s1)
          else
            (case spi_write_and_read xch (spi_desc (desc s1))
                    (take DATA_BLOCK_LEN (memset data 0xff DATA_BLOCK_LEN)) s1 of
               (r, rx, s2) \<Rightarrow>
                 let data' = rx @ drop DATA_BLOCK_LEN data in
                 if r \<noteq> NO_OS_SUCCESS then (NO_OS_FAILURE, data', s2)
                 else
                   (case spi_buff xch CRC_LEN
                           (set_buff ((buff (desc s2))[0 := 0xFF, 1 := 0xFF]) s2) of
                      (r, s3) \<Rightarrow>
                        if r \<noteq> NO_OS_SUCCESS then (NO_OS_FAILURE, data', s3)
                        else (NO_OS_SUCCESS, data', s3))))"

subsection \<open>The block-band engine\<close>

text \<open>A loop counter below its bound does not wrap when it is incremented.\<close>

lemma unat_inc_less:
  assumes "(i::'a::len word) < n"
  shows "unat (i + 1) = Suc (unat i)"
proof -
  from assms have "unat i < unat n" by (simp add: word_less_nat_alt)
  moreover have "unat n < 2 ^ LENGTH('a)" by (rule unsigned_less)
  ultimately have "unat i + 1 < 2 ^ LENGTH('a)" by linarith
  then show ?thesis by (simp add: unat_word_ariths)
qed

text \<open>
  The loop of \<^verbatim>\<open>write_multiple_blocks\<close>, from the state of its variables at the loop
  head. \<open>data\<close> is the caller's whole buffer, \<open>first_block\<close> and \<open>last_block\<close> are
  the two scratch blocks of \<^verbatim>\<open>sd_write\<close>.
\<close>

function write_multiple_blocks_loop ::
  "('h, 'p) exchange \<Rightarrow> 64 word \<Rightarrow> 64 word \<Rightarrow> 32 word \<Rightarrow> 32 word \<Rightarrow> 64 word \<Rightarrow>
   byte list \<Rightarrow> byte list \<Rightarrow> byte list \<Rightarrow> ('h, 'p) machine \<Rightarrow> ret \<times> byte list \<times> ('h, 'p) machine"
where
  "write_multiple_blocks_loop xch addr len nb_of_blocks i data_idx data first_block last_block s =
     (if i < nb_of_blocks then
        (let buff_first_idx =
               (if i = 0 then ucast (addr AND MASK_ADDR_IN_BLOCK) else 0x0000) :: 16 word;
             buff_copy_len =
               (if i = nb_of_blocks - 1
                then ucast (((addr + len - 1) AND MASK_ADDR_IN_BLOCK) - ucast buff_first_idx + 1)
                else ucast ((of_nat DATA_BLOCK_LEN :: 32 word) - ucast buff_first_idx)) :: 16 word
         in
           if buff_first_idx = 0x0000 \<and> buff_copy_len = of_nat DATA_BLOCK_LEN then
             (case write_block xch (take DATA_BLOCK_LEN (drop (unat data_idx) data))
                     nb_of_blocks s of
                (r, blk, s') \<Rightarrow>
                  let data' = memcpy data (unat data_idx) blk in
                  if r \<noteq> NO_OS_SUCCESS then (NO_OS_FAILURE, data', s')
                  else write_multiple_blocks_loop xch addr len nb_of_blocks (i + 1)
                         (data_idx + ucast buff_copy_len) data' first_block last_block s')
           else if i = 0 then
             (case write_block xch
                     (memcpy first_block (unat buff_first_idx)
                        (take (unat buff_copy_len) (drop (unat data_idx) data)))
                     nb_of_blocks s of
                (r, blk, s') \<Rightarrow>
                  if r \<noteq> NO_OS_SUCCESS then (NO_OS_FAILURE, data, s')
                  else write_multiple_blocks_loop xch addr len nb_of_blocks (i + 1)
                         (data_idx + ucast buff_copy_len) data blk last_block s')
           else
             (case write_block xch
                     (memcpy last_block 0
                        (take (unat buff_copy_len) (drop (unat data_idx) data)))
                     nb_of_blocks s of
                (r, blk, s') \<Rightarrow>
                  if r \<noteq> NO_OS_SUCCESS then (NO_OS_FAILURE, data, s')
                  else write_multiple_blocks_loop xch addr len nb_of_blocks (i + 1)
                         (data_idx + ucast buff_copy_len) data first_block blk s'))
      else (NO_OS_SUCCESS, data, s))"
  by pat_completeness auto
termination
  by (relation "measure (\<lambda>(xch, addr, len, nb, i, rest). unat nb - unat i)")
     (auto simp: word_less_nat_alt unat_inc_less)

declare write_multiple_blocks_loop.simps [simp del]

definition write_multiple_blocks ::
  "('h, 'p) exchange \<Rightarrow> byte list \<Rightarrow> 64 word \<Rightarrow> 64 word \<Rightarrow> byte list \<Rightarrow> byte list \<Rightarrow>
   ('h, 'p) machine \<Rightarrow> ret \<times> byte list \<times> ('h, 'p) machine"
where
  "write_multiple_blocks xch data addr len first_block last_block s =
     write_multiple_blocks_loop xch addr len (get_nb_of_blocks addr len) 0 0
       data first_block last_block s"

text \<open>
  The loop of \<^verbatim>\<open>read_multiple_blocks\<close>. \<open>lbuff\<close> is the local block \<^verbatim>\<open>buff\<close>:
  \<^verbatim>\<open>read_block\<close> fills all of it before any byte of it is copied out.
\<close>

function read_multiple_blocks_loop ::
  "('h, 'p) exchange \<Rightarrow> 64 word \<Rightarrow> 64 word \<Rightarrow> 32 word \<Rightarrow> 64 word \<Rightarrow>
   byte list \<Rightarrow> byte list \<Rightarrow> ('h, 'p) machine \<Rightarrow> ret \<times> byte list \<times> ('h, 'p) machine"
where
  "read_multiple_blocks_loop xch addr len i data_idx data lbuff s =
     (if i < get_nb_of_blocks addr len then
        (let buff_first_idx =
               (if i = 0 then ucast (addr AND MASK_ADDR_IN_BLOCK) else 0x0000) :: 16 word;
             buff_copy_len =
               (if i = get_nb_of_blocks addr len - 1
                then ucast (((addr + len - 1) AND MASK_ADDR_IN_BLOCK) - ucast buff_first_idx + 1)
                else ucast ((of_nat DATA_BLOCK_LEN :: 32 word) - ucast buff_first_idx)) :: 16 word
         in
           if buff_first_idx = 0x0000 \<and> buff_copy_len = of_nat DATA_BLOCK_LEN then
             (case read_block xch (take DATA_BLOCK_LEN (drop (unat data_idx) data)) s of
                (r, blk, s') \<Rightarrow>
                  let data' = memcpy data (unat data_idx) blk in
                  if r \<noteq> NO_OS_SUCCESS then (NO_OS_FAILURE, data', s')
                  else read_multiple_blocks_loop xch addr len (i + 1)
                         (data_idx + ucast buff_copy_len) data' lbuff s')
           else
             (case read_block xch lbuff s of
                (r, blk, s') \<Rightarrow>
                  if r \<noteq> NO_OS_SUCCESS then (NO_OS_FAILURE, data, s')
                  else read_multiple_blocks_loop xch addr len (i + 1)
                         (data_idx + ucast buff_copy_len)
                         (memcpy data (unat data_idx)
                            (take (unat buff_copy_len) (drop (unat buff_first_idx) blk)))
                         blk s'))
      else (NO_OS_SUCCESS, data, s))"
  by pat_completeness auto
termination
  by (relation "measure (\<lambda>(xch, addr, len, i, rest). unat (get_nb_of_blocks addr len) - unat i)")
     (auto simp: word_less_nat_alt unat_inc_less)

declare read_multiple_blocks_loop.simps [simp del]

definition read_multiple_blocks ::
  "('h, 'p) exchange \<Rightarrow> byte list \<Rightarrow> 64 word \<Rightarrow> 64 word \<Rightarrow> ('h, 'p) machine \<Rightarrow>
   ret \<times> byte list \<times> ('h, 'p) machine"
where
  "read_multiple_blocks xch data addr len s =
     read_multiple_blocks_loop xch addr len 0 0 data (replicate DATA_BLOCK_LEN 0) s"

subsection \<open>Reading and writing a byte range\<close>

text \<open>
  The initial checks of \<^verbatim>\<open>sd_read\<close> and \<^verbatim>\<open>sd_write\<close> (the same condition in both). A
  NULL \<open>data\<close> pointer is \<open>None\<close>. The sum \<open>address + len\<close> is the 64-bit sum of
  the source.
\<close>

definition initial_checks_fail :: "byte list option \<Rightarrow> 64 word \<Rightarrow> 64 word \<Rightarrow> 64 word \<Rightarrow> bool" where
  "initial_checks_fail data address len msize \<longleftrightarrow>
     data = None \<or> address > msize \<or> len > msize \<or> address + len > msize"

definition sd_read ::
  "('h, 'p) exchange \<Rightarrow> byte list option \<Rightarrow> 64 word \<Rightarrow> 64 word \<Rightarrow> ('h, 'p) machine \<Rightarrow>
   ret \<times> byte list option \<times> ('h, 'p) machine"
where
  "sd_read xch data address len s =
     (if initial_checks_fail data address len (memory_size (desc s)) then (NO_OS_FAILURE, data, s)
      else
        (case data of
           None \<Rightarrow> (NO_OS_FAILURE, data, s)
         | Some d \<Rightarrow>
             (case send_command xch
                     \<lparr>cmd = (if get_nb_of_blocks address len = 1 then CMD 17 else CMD 18),
                      arg = ucast (drop_bit DATA_BLOCK_BITS address),
                      response = [], response_len = R1_LEN\<rparr> s of
                (r, cd, s1) \<Rightarrow>
                  if r \<noteq> NO_OS_SUCCESS then (NO_OS_FAILURE, data, s1)
                  else if response cd ! 0 \<noteq> R1_READY_STATE then (NO_OS_FAILURE, data, s1)
                  else
                    (case read_multiple_blocks xch d address len s1 of
                       (r, d', s2) \<Rightarrow>
                         if r \<noteq> NO_OS_SUCCESS then (NO_OS_FAILURE, Some d', s2)
                         else if get_nb_of_blocks address len \<noteq> 1 then
                           (case send_command xch
                                   (cd\<lparr>cmd := CMD 12, arg := STUFF_ARG, response_len := R1_LEN\<rparr>)
                                   s2 of
                              (r, cd', s3) \<Rightarrow>
                                if r \<noteq> NO_OS_SUCCESS then (NO_OS_FAILURE, Some d', s3)
                                else if response cd' ! 0 \<noteq> R1_READY_STATE
                                then (NO_OS_FAILURE, Some d', s3)
                                else (NO_OS_SUCCESS, Some d', s3))
                         else (NO_OS_SUCCESS, Some d', s2)))))"

text \<open>
  The two conditions of \<^verbatim>\<open>sd_write\<close> (lines 471 to 473 and 476 to 478) under which the first
  and the last block are read before the write.
\<close>

definition need_first_block :: "64 word \<Rightarrow> 64 word \<Rightarrow> bool" where
  "need_first_block address len \<longleftrightarrow>
     (address AND MASK_ADDR_IN_BLOCK) \<noteq> 0 \<or>
     ((address AND MASK_ADDR_IN_BLOCK) = 0 \<and> len < of_nat DATA_BLOCK_LEN)"

definition need_last_block :: "64 word \<Rightarrow> 64 word \<Rightarrow> bool" where
  "need_last_block address len \<longleftrightarrow>
     ((address + len - 1) AND MASK_BLOCK_NUMBER) \<noteq> (address AND MASK_BLOCK_NUMBER) \<and>
     ((address + len - 1) AND MASK_ADDR_IN_BLOCK) \<noteq> MASK_ADDR_IN_BLOCK"

text \<open>
  A call \<^verbatim>\<open>sd_read(sd_desc, block, address, DATA_BLOCK_LEN)\<close> whose return value the caller
  drops, as \<^verbatim>\<open>sd_write\<close> does twice: what remains is the block and the machine state.
\<close>

definition read_scratch_block ::
  "('h, 'p) exchange \<Rightarrow> byte list \<Rightarrow> 64 word \<Rightarrow> ('h, 'p) machine \<Rightarrow> byte list \<times> ('h, 'p) machine"
where
  "read_scratch_block xch block address s =
     (case sd_read xch (Some block) address (of_nat DATA_BLOCK_LEN) s of
        (r, d, s') \<Rightarrow> (case d of Some b \<Rightarrow> b | None \<Rightarrow> block, s'))"

text \<open>Lines 469 to 480 of \<^verbatim>\<open>sd_write\<close>: the two preliminary reads.\<close>

definition read_first_block ::
  "('h, 'p) exchange \<Rightarrow> 64 word \<Rightarrow> 64 word \<Rightarrow> byte list \<Rightarrow> ('h, 'p) machine \<Rightarrow>
   byte list \<times> ('h, 'p) machine"
where
  "read_first_block xch address len first_block s =
     (if need_first_block address len
      then read_scratch_block xch first_block (address AND MASK_BLOCK_NUMBER) s
      else (first_block, s))"

definition read_last_block ::
  "('h, 'p) exchange \<Rightarrow> 64 word \<Rightarrow> 64 word \<Rightarrow> byte list \<Rightarrow> ('h, 'p) machine \<Rightarrow>
   byte list \<times> ('h, 'p) machine"
where
  "read_last_block xch address len last_block s =
     (if need_last_block address len
      then read_scratch_block xch last_block ((address + len - 1) AND MASK_BLOCK_NUMBER) s
      else (last_block, s))"

text \<open>Lines 482 to 508 of \<^verbatim>\<open>sd_write\<close>: the write command, the blocks, the stop token.\<close>

definition write_command :: "64 word \<Rightarrow> 64 word \<Rightarrow> cmd_desc" where
  "write_command address len =
     \<lparr>cmd = (if get_nb_of_blocks address len = 1 then CMD 24 else CMD 25),
      arg = ucast (drop_bit DATA_BLOCK_BITS address),
      response = [], response_len = R1_LEN\<rparr>"

definition sd_write_blocks ::
  "('h, 'p) exchange \<Rightarrow> byte list \<Rightarrow> 64 word \<Rightarrow> 64 word \<Rightarrow> byte list \<Rightarrow> byte list \<Rightarrow>
   ('h, 'p) machine \<Rightarrow> ret \<times> byte list option \<times> ('h, 'p) machine"
where
  "sd_write_blocks xch d address len first_block last_block s =
     (case send_command xch (write_command address len) s of
        (r, cd, s1) \<Rightarrow>
          if r \<noteq> NO_OS_SUCCESS then (NO_OS_FAILURE, Some d, s1)
          else if response cd ! 0 \<noteq> R1_READY_STATE then (NO_OS_FAILURE, Some d, s1)
          else
            (case write_multiple_blocks xch d address len first_block last_block s1 of
               (r, d', s2) \<Rightarrow>
                 if r \<noteq> NO_OS_SUCCESS then (NO_OS_FAILURE, Some d', s2)
                 else if get_nb_of_blocks address len \<noteq> 1 then
                   (case spi_buff xch 2
                           (set_buff ((buff (desc s2))
                              [0 := STOP_TRANSMISSION_TOKEN, 1 := 0xFF]) s2) of
                      (r, s3) \<Rightarrow>
                        if r \<noteq> NO_OS_SUCCESS then (NO_OS_FAILURE, Some d', s3)
                        else
                          (case wait_until_not_busy xch s3 of
                             (r, s4) \<Rightarrow>
                               if r \<noteq> NO_OS_SUCCESS then (NO_OS_FAILURE, Some d', s4)
                               else (NO_OS_SUCCESS, Some d', s4)))
                 else (NO_OS_SUCCESS, Some d', s2)))"

text \<open>
  \<^verbatim>\<open>sd_write\<close>. The scratch blocks \<^verbatim>\<open>first_block\<close> and \<^verbatim>\<open>last_block\<close> are locals the
  source does not initialise: what they hold at entry is a parameter of the model.
\<close>

definition sd_write ::
  "('h, 'p) exchange \<Rightarrow> byte list option \<Rightarrow> 64 word \<Rightarrow> 64 word \<Rightarrow> byte list \<Rightarrow> byte list \<Rightarrow>
   ('h, 'p) machine \<Rightarrow> ret \<times> byte list option \<times> ('h, 'p) machine"
where
  "sd_write xch data address len first_block last_block s =
     (if initial_checks_fail data address len (memory_size (desc s)) then (NO_OS_FAILURE, data, s)
      else
        (case data of
           None \<Rightarrow> (NO_OS_FAILURE, data, s)
         | Some d \<Rightarrow>
             (case read_first_block xch address len first_block s of
                (first_block', s1) \<Rightarrow>
                  (case read_last_block xch address len last_block s1 of
                     (last_block', s2) \<Rightarrow>
                       sd_write_blocks xch d address len first_block' last_block' s2))))"

subsection \<open>Initialisation\<close>

text \<open>The retry loop of CMD0 (lines 541 to 551), from the value of \<open>i\<close> at the loop head.\<close>

lemma cmd0_retry_decreases:
  assumes "(i::32 word) \<noteq> 4"
  shows "unat (3 - i) < unat (4 - i)"
proof -
  from assms have nz: "4 - i \<noteq> 0" by auto
  have eq: "3 - i = (4 - i) - 1" by simp
  have "unat ((4 - i) - 1) < unat (4 - i)"
    using nz unat_minus_one[of "4 - i"] unat_gt_0[of "4 - i"] by linarith
  then show ?thesis by (simp only: eq)
qed

function cmd0_loop ::
  "('h, 'p) exchange \<Rightarrow> cmd_desc \<Rightarrow> 32 word \<Rightarrow> ('h, 'p) machine \<Rightarrow> ret \<times> cmd_desc \<times> ('h, 'p) machine"
where
  "cmd0_loop xch cd i s =
     (case send_command xch cd s of
        (r, cd', s') \<Rightarrow>
          if r \<noteq> NO_OS_SUCCESS then (NO_OS_FAILURE, cd', s')
          else if response cd' ! 0 = R1_IDLE_STATE then (NO_OS_SUCCESS, cd', s')
          else if i + 1 = CMD0_RETRY_NUMBER then (NO_OS_FAILURE, cd', s')
          else cmd0_loop xch cd' (i + 1) s')"
  by pat_completeness auto
termination
  by (relation "measure (\<lambda>(xch, cd, i, s). unat (4 - i))")
     (auto simp: CMD0_RETRY_NUMBER_def cmd0_retry_decreases)

declare cmd0_loop.simps [simp del]

text \<open>
  The loop of ACMD41 (lines 571 to 577) has no bound in the source: it ends only when the
  card answers with the ready state or the pipe fails. Not returning is the value
  \<open>None\<close>.
\<close>

partial_function (option) acmd41_loop ::
  "('h, 'p) exchange \<Rightarrow> cmd_desc \<Rightarrow> ('h, 'p) machine \<Rightarrow> (ret \<times> cmd_desc \<times> ('h, 'p) machine) option"
where
  "acmd41_loop xch cd s =
     (case send_command xch cd s of
        (r, cd', s') \<Rightarrow>
          if r \<noteq> NO_OS_SUCCESS then Some (NO_OS_FAILURE, cd', s')
          else if response cd' ! 0 = R1_READY_STATE then Some (NO_OS_SUCCESS, cd', s')
          else acmd41_loop xch (cd'\<lparr>arg := 0x00000000\<rparr>) s')"

declare acmd41_loop.simps [code]

text \<open>Lines 608 to 613: the capacity computed from the bytes of the scratch buffer.\<close>

definition c_size_of :: "byte list \<Rightarrow> 32 word" where
  "c_size_of b =
     push_bit 16 (ucast (b ! 7) AND (push_bit 5 1 - 1)) OR push_bit 8 (ucast (b ! 8)) OR ucast (b ! 9)"

definition memory_size_of :: "byte list \<Rightarrow> 64 word" where
  "memory_size_of b = (ucast (c_size_of b) + 1) * push_bit 10 (of_nat DATA_BLOCK_LEN)"

text \<open>Lines 531 to 614 of \<^verbatim>\<open>sd_init\<close>: the handshake, on the freshly allocated descriptor.\<close>

definition sd_init_handshake ::
  "('h, 'p) exchange \<Rightarrow> ('h, 'p) machine \<Rightarrow> (ret \<times> ('h, 'p) machine) option"
where
  "sd_init_handshake xch s =
     (case spi_buff xch 10 (set_buff (memset (buff (desc s)) 0xFF 10) s) of
        (r, s1) \<Rightarrow>
     if r \<noteq> NO_OS_SUCCESS then Some (NO_OS_FAILURE, s1) else
     (case cmd0_loop xch
             \<lparr>cmd = CMD 0, arg = STUFF_ARG, response = [], response_len = R1_LEN\<rparr> 0 s1 of
        (r, cd, s2) \<Rightarrow>
     if r \<noteq> NO_OS_SUCCESS then Some (NO_OS_FAILURE, s2) else
     (case send_command xch (cd\<lparr>cmd := CMD 8, arg := CMD8_ARG, response_len := R3_LEN\<rparr>) s2 of
        (r, cd, s3) \<Rightarrow>
     if r \<noteq> NO_OS_SUCCESS then Some (NO_OS_FAILURE, s3) else
     if \<not> (response cd ! 0 = R1_IDLE_STATE \<and> response cd ! 3 = 0x1 \<and> response cd ! 4 = 0xAA)
     then Some (NO_OS_FAILURE, s3) else
     (case acmd41_loop xch
             (cd\<lparr>cmd := ACMD 41, arg := ACMD41_ARG, response_len := R1_LEN\<rparr>) s3 of
        None \<Rightarrow> None
      | Some (r, cd, s4) \<Rightarrow>
     if r \<noteq> NO_OS_SUCCESS then Some (NO_OS_FAILURE, s4) else
     (case send_command xch (cd\<lparr>cmd := CMD 58, arg := STUFF_ARG, response_len := R3_LEN\<rparr>) s4 of
        (r, cd, s5) \<Rightarrow>
     if r \<noteq> NO_OS_SUCCESS then Some (NO_OS_FAILURE, s5) else
     if \<not> (response cd ! 0 = R1_READY_STATE \<and>
           response cd ! 1 AND ucast (drop_bit 24 BIT_CCS) \<noteq> 0)
     then Some (NO_OS_FAILURE, s5) else
     (case send_command xch (cd\<lparr>cmd := CMD 9, arg := STUFF_ARG, response_len := R1_LEN\<rparr>) s5 of
        (r, cd, s6) \<Rightarrow>
     if r \<noteq> NO_OS_SUCCESS then Some (NO_OS_FAILURE, s6) else
     (case wait_for_response xch s6 of
        (r, r0, s7) \<Rightarrow>
     if r \<noteq> NO_OS_SUCCESS then Some (NO_OS_FAILURE, s7) else
     if r0 \<noteq> START_1_BLOCK_TOKEN then Some (NO_OS_FAILURE, s7) else
     (case spi_buff xch CSD_LEN (set_buff (memset (buff (desc s7)) 0xFF CSD_LEN) s7) of
        (r, s8) \<Rightarrow>
     if r \<noteq> NO_OS_SUCCESS then Some (NO_OS_FAILURE, s8) else
     Some (NO_OS_SUCCESS,
           s8\<lparr>desc := (desc s8)\<lparr>memory_size := memory_size_of (buff (desc s8))\<rparr>\<rparr>)))))))))"

text \<open>
  \<^verbatim>\<open>sd_init\<close>. \<open>out\<close> says that the pointer \<^verbatim>\<open>sd_desc\<close> is not NULL, \<open>param\<close> is the
  SPI descriptor of the initialisation parameter (\<open>None\<close> for a NULL \<^verbatim>\<open>param\<close>),
  \<open>allocated\<close> says that \<^verbatim>\<open>calloc\<close> returned a descriptor. \<^verbatim>\<open>calloc\<close> zeroes the
  descriptor; its scratch buffer has the \<^verbatim>\<open>CSD_LEN\<close> bytes the longest exchange on it
  needs. The result holds the descriptor once it is allocated.
\<close>

definition sd_init ::
  "('h, 'p) exchange \<Rightarrow> bool \<Rightarrow> 'h option \<Rightarrow> bool \<Rightarrow> 'p \<Rightarrow> transfer list \<Rightarrow>
   (ret \<times> ('h, 'p) machine option) option"
where
  "sd_init xch out param allocated p w =
     (case param of
        None \<Rightarrow> Some (NO_OS_FAILURE, None)
      | Some h \<Rightarrow>
          if \<not> out then Some (NO_OS_FAILURE, None)
          else if \<not> allocated then Some (NO_OS_FAILURE, None)
          else
            (case sd_init_handshake xch
                    \<lparr>desc = \<lparr>spi_desc = h, memory_size = 0, buff = replicate CSD_LEN 0\<rparr>,
                     pipe = p, wire = w\<rparr> of
               None \<Rightarrow> None
             | Some (r, s) \<Rightarrow> Some (r, Some s)))"

subsection \<open>Two byte pipes to run the driver on\<close>

text \<open>
  A card that replays a script: every exchanged slot receives the next byte of the
  script, and the idle byte 0xFF once the script is used up. The pipe never fails.
\<close>

definition script_pipe :: "(unit, byte list) exchange" where
  "script_pipe h p tx =
     (True, take (length tx) (p @ replicate (length tx) 0xFF), drop (length tx) p)"

text \<open>A pipe whose every exchange reports a transport error.\<close>

definition broken_pipe :: "(unit, unit) exchange" where
  "broken_pipe h p tx = (False, [], p)"

definition session :: "64 word \<Rightarrow> 'p \<Rightarrow> (unit, 'p) machine" where
  "session msize p =
     \<lparr>desc = \<lparr>spi_desc = (), memory_size = msize, buff = replicate CSD_LEN 0\<rparr>,
      pipe = p, wire = []\<rparr>"

text \<open>
  The script of a card of version 2.00 and high capacity through \<^verbatim>\<open>sd_init\<close>: the bytes the
  card puts on the wire, slot by slot, from the warm-up to the CSD and its CRC. \<open>r1\<close> is
  its answer to CMD9; \<open>c7\<close>, \<open>c8\<close> and \<open>c9\<close> are the bytes 7 to 9 of its CSD.
\<close>

definition card_script :: "byte \<Rightarrow> byte \<Rightarrow> byte \<Rightarrow> byte \<Rightarrow> byte list" where
  "card_script r1 c7 c8 c9 =
     [0xFF, 0xFF, 0xFF, 0xFF, 0xFF, 0xFF, 0xFF, 0xFF, 0xFF, 0xFF,
      0xFF, 0xFF, 0xFF, 0xFF, 0xFF, 0xFF, 0xFF, 0xFF, 0x01,
      0xFF, 0xFF, 0xFF, 0xFF, 0xFF, 0xFF, 0xFF, 0xFF, 0x01, 0x00, 0x00, 0x01, 0xAA,
      0xFF, 0xFF, 0xFF, 0xFF, 0xFF, 0xFF, 0xFF, 0xFF, 0x01,
      0xFF, 0xFF, 0xFF, 0xFF, 0xFF, 0xFF, 0xFF, 0xFF, 0x00,
      0xFF, 0xFF, 0xFF, 0xFF, 0xFF, 0xFF, 0xFF, 0xFF, 0x00, 0xC0, 0xFF, 0x80, 0x00,
      0xFF, 0xFF, 0xFF, 0xFF, 0xFF, 0xFF, 0xFF, 0xFF, r1,
      0xFE,
      0x40, 0x0E, 0x00, 0x32, 0x5B, 0x59, 0x00, c7, c8, c9, 0x7F, 0x80, 0x0A, 0x40, 0x00, 0x01,
      0x00, 0x00]"




section \<open>Vocabulary of the properties\<close>

text \<open>
  The exchange of a command as the properties describe it: eight bytes, an idle byte
  before and after the six bytes of the command; the command index with the start bits,
  the argument with its most significant byte first, and the byte of the CRC.
\<close>

definition command_frame :: "byte \<Rightarrow> 32 word \<Rightarrow> byte \<Rightarrow> byte list" where
  "command_frame idx a crc =
     [0xFF, 0x40 OR (idx AND 0x3F),
      ucast (drop_bit 24 a), ucast (drop_bit 16 a), ucast (drop_bit 8 a), ucast a,
      crc, 0xFF]"

text \<open>
  A run of polls: at most \<open>n\<close> exchanges of one idle byte each, all but the last of
  which succeeded and received the byte \<open>idle\<close> that makes the loop go on.
\<close>

definition polled :: "byte \<Rightarrow> nat \<Rightarrow> transfer list \<Rightarrow> bool" where
  "polled idle n new \<longleftrightarrow>
     length new \<le> n \<and>
     (\<forall>x\<in>set new. tx_bytes x = [0xFF] \<and> length (rx_bytes x) = 1) \<and>
     (\<forall>x\<in>set (butlast new). transfer_ok x \<and> rx_bytes x = [idle])"

text \<open>
  A later state of the same session: the reference to the pipe and \<open>memory_size\<close> are
  the same, and the record of the wire has only grown.
\<close>

definition extends :: "('h, 'p) machine \<Rightarrow> ('h, 'p) machine \<Rightarrow> bool" where
  "extends s s' \<longleftrightarrow>
     spi_desc (desc s') = spi_desc (desc s) \<and>
     memory_size (desc s') = memory_size (desc s) \<and>
     (\<exists>new. wire s' = wire s @ new)"

text \<open>
  The sizes \<^verbatim>\<open>sd_init\<close> can store in \<open>memory_size\<close>: a positive multiple of 512 KiB (so of
  the block length) of at most \<open>2 ^ 40\<close> bytes.
\<close>

definition initialized :: "('h, 'p) machine \<Rightarrow> bool" where
  "initialized s \<longleftrightarrow>
     0 < unat (memory_size (desc s)) \<and> unat (memory_size (desc s)) \<le> 2 ^ 40 \<and>
     unat (memory_size (desc s)) mod 512 = 0"

section \<open>Words and bytes\<close>

lemma ff_mask: "(0xff :: 'a::len word) = mask 8"
  by (simp add: mask_eq_exp_minus_1)

lemma ucast_and_ff: "(ucast ((a::32 word) AND 0xff) :: byte) = ucast a"
  unfolding ff_mask
  by (rule bit_word_eqI) (auto simp: bit_simps)

text \<open>The command byte of an index below 64, with and without the application bit.\<close>

lemma command_byte:
  assumes "idx \<le> (63::byte)"
  shows "(idx + 64) AND NOT 128 = 64 OR (idx AND 63)"
    and "((idx + 64) OR 128) AND NOT 128 = 64 OR (idx AND 63)"
    and "(idx + 64) AND 128 = 0"
    and "((idx + 64) OR 128) AND 128 \<noteq> 0"
proof -
  have c: "(63::byte) = mask 6"
    by (simp_all add: mask_eq_exp_minus_1)
  have b64: "bit (64::int) n \<longleftrightarrow> n = 6" for n
    using bit_exp_iff[where 'a=int, of 6 n] by auto
  have b128: "bit (128::int) n \<longleftrightarrow> n = 7" for n
    using bit_exp_iff[where 'a=int, of 7 n] by auto
  from assms have "idx < 2^6" by (simp add: word_less_nat_alt word_le_nat_alt)
  then have t: "idx AND mask 6 = idx" by (rule less_mask_eq)
  have b: "n < 6" if "bit idx n" for n
    using that by (metis t bit_and_iff bit_mask_iff)
  have d: "idx AND 64 = 0" by (rule bit_eqI) (auto simp: bit_simps b64 dest: b)
  have e: "idx + 64 = idx OR 64" by (rule disjunctive_add_eq_or[OF d])
  show "(idx + 64) AND NOT 128 = 64 OR (idx AND 63)"
    unfolding c e by (rule bit_eqI) (auto simp: bit_simps b64 b128 dest: b)
  show "((idx + 64) OR 128) AND NOT 128 = 64 OR (idx AND 63)"
    unfolding c e by (rule bit_eqI) (auto simp: bit_simps b64 b128 dest: b)
  show "(idx + 64) AND 128 = 0"
    unfolding c e by (rule bit_eqI) (auto simp: bit_simps b64 b128 dest: b)
  have "bit (((idx + 64) OR 128) AND 128) 7"
    unfolding c e by (simp add: bit_simps b64 b128)
  then show "((idx + 64) OR 128) AND 128 \<noteq> 0" by auto
qed

text \<open>The four argument bytes of a command frame are the argument, most significant first.\<close>

lemma big_endian_bytes:
  "unat (a::32 word) =
     2^24 * unat (ucast (drop_bit 24 a) :: byte) + 2^16 * unat (ucast (drop_bit 16 a) :: byte)
     + 2^8 * unat (ucast (drop_bit 8 a) :: byte) + unat (ucast a :: byte)"
proof -
  define x where "x = unat a"
  define y where "y = x div 256"
  define z where "z = y div 256"
  define w where "w = z div 256"
  have lt: "x < 2^32" unfolding x_def using unsigned_less[of a] by simp
  have zx: "z = x div 65536" unfolding z_def y_def by (simp add: div_mult2_eq[symmetric])
  have wx: "w = x div 16777216" unfolding w_def zx by (simp add: div_mult2_eq[symmetric])
  have 1: "x = 256 * y + x mod 256" unfolding y_def by simp
  have 2: "y = 256 * z + y mod 256" unfolding z_def by simp
  have 3: "z = 256 * w + z mod 256" unfolding w_def by simp
  have 4: "w mod 256 = w" unfolding wx using lt by (simp add: less_mult_imp_div_less)
  have "x = 16777216 * (w mod 256) + 65536 * (z mod 256) + 256 * (y mod 256) + x mod 256"
    using 1 2 3 4 by linarith
  then show ?thesis
    using 4 unfolding wx zx y_def x_def
    by (simp add: unsigned_ucast_eq unat_drop_bit_eq drop_bit_eq_div take_bit_eq_mod unat_div)
qed

section \<open>What one call does to the machine\<close>

lemma spi_write_and_read_effect:
  assumes "spi_write_and_read xch h buf s = (r, rx, s')"
  shows "desc s' = desc s"
    and "wire s' = wire s @ [\<lparr>tx_bytes = buf, rx_bytes = rx, transfer_ok = (r = NO_OS_SUCCESS)\<rparr>]"
    and "length rx = length buf"
  using assms
  by (auto simp: spi_write_and_read_def Let_def split: prod.splits if_splits)

subsection \<open>The polling loops\<close>

lemma wait_for_response_loop_idle:
  "wait_for_response_loop xch t 0xFF s =
     (case spi_write_and_read xch (spi_desc (desc s)) [0xFF] s of
        (r, rx, s') \<Rightarrow>
          if r \<noteq> NO_OS_SUCCESS then (NO_OS_FAILURE, hd rx, s')
          else if t = 0 then (NO_OS_FAILURE, hd rx, s')
          else wait_for_response_loop xch (t - 1) (hd rx) s')"
  by (subst wait_for_response_loop.simps) simp

lemma wait_for_response_loop_done:
  "d \<noteq> 0xFF \<Longrightarrow> wait_for_response_loop xch t d s = (NO_OS_SUCCESS, d, s)"
  by (subst wait_for_response_loop.simps) simp

lemma polled_single:
  "0 < n \<Longrightarrow> polled idle n [\<lparr>tx_bytes = [0xFF], rx_bytes = [b], transfer_ok = k\<rparr>]"
  by (simp add: polled_def)

lemma polled_Cons:
  "polled idle n new \<Longrightarrow> new \<noteq> [] \<Longrightarrow>
   polled idle (Suc n) (\<lparr>tx_bytes = [0xFF], rx_bytes = [idle], transfer_ok = True\<rparr> # new)"
  by (auto simp: polled_def)

lemma wait_for_response_loop_effect:
  "wait_for_response_loop xch t 0xFF s = (r, b, s') \<Longrightarrow>
     desc s' = desc s \<and>
     (\<exists>new. wire s' = wire s @ new \<and> new \<noteq> [] \<and> polled 0xFF (unat t + 1) new \<and>
        rx_bytes (last new) = [b] \<and>
        (if r = NO_OS_SUCCESS then b \<noteq> 0xFF \<and> transfer_ok (last new)
         else \<not> transfer_ok (last new) \<or> length new = unat t + 1))"
proof (induction t arbitrary: s rule: measure_induct_rule[where f = unat])
  case (less t)
  obtain r1 rx s1 where x: "spi_write_and_read xch (spi_desc (desc s)) [0xFF] s = (r1, rx, s1)"
    by (cases "spi_write_and_read xch (spi_desc (desc s)) [0xFF] s") auto
  note e = spi_write_and_read_effect[OF x]
  from e(3) obtain b1 where rx: "rx = [b1]" by (cases rx) auto
  let ?x = "\<lparr>tx_bytes = [0xFF], rx_bytes = [b1], transfer_ok = (r1 = NO_OS_SUCCESS)\<rparr>"
  have w1: "wire s1 = wire s @ [?x]" using e(2) rx by simp
  show ?case
  proof (cases "r1 \<noteq> NO_OS_SUCCESS \<or> t = 0")
    case True
    with less.prems x rx have res: "r = NO_OS_FAILURE" "b = b1" "s' = s1"
      by (auto simp: wait_for_response_loop_idle split: if_splits)
    have "polled 0xFF (unat t + 1) [?x]" by (rule polled_single) simp
    with res w1 e(1) True show ?thesis
      by (intro conjI exI[of _ "[?x]"]) auto
  next
    case False
    then have ok: "r1 = NO_OS_SUCCESS" and t: "t \<noteq> 0" by auto
    have ut: "unat (t - 1) + 1 = unat t" using t by (simp add: unat_minus_one unat_gt_0)
    from less.prems x ok t rx
    have rec: "wait_for_response_loop xch (t - 1) b1 s1 = (r, b, s')"
      by (simp add: wait_for_response_loop_idle)
    show ?thesis
    proof (cases "b1 = 0xFF")
      case True
      have lt: "unat (t - 1) < unat t" using ut by linarith
      from less.IH[OF lt, of s1] rec True
      obtain new where n: "desc s' = desc s1" "wire s' = wire s1 @ new" "new \<noteq> []"
        "polled 0xFF (unat (t - 1) + 1) new" "rx_bytes (last new) = [b]"
        "if r = NO_OS_SUCCESS then b \<noteq> 0xFF \<and> transfer_ok (last new)
         else \<not> transfer_ok (last new) \<or> length new = unat (t - 1) + 1"
        by blast
      have p: "polled 0xFF (unat t + 1) (?x # new)"
        using polled_Cons[OF n(4) n(3)] ok True ut by simp
      have l: "last (?x # new) = last new" using n(3) by simp
      show ?thesis
        apply (intro conjI exI[of _ "?x # new"])
        using n e(1) w1 apply simp
        using n w1 apply simp
         apply simp
        apply (rule p)
        using n(5) l apply simp
        using n(6) l ut by (simp split: if_splits)
    next
      case False
      with rec have res: "r = NO_OS_SUCCESS" "b = b1" "s' = s1"
        by (simp_all add: wait_for_response_loop_done)
      have "polled 0xFF (unat t + 1) [?x]" by (rule polled_single) simp
      with res w1 e(1) False ok show ?thesis
        by (intro conjI exI[of _ "[?x]"]) auto
    qed
  qed
qed

lemma wait_until_not_busy_loop_busy:
  "wait_until_not_busy_loop xch t 0x00 s =
     (case spi_write_and_read xch (spi_desc (desc s)) [0xFF] s of
        (r, rx, s') \<Rightarrow>
          if r \<noteq> NO_OS_SUCCESS then (NO_OS_FAILURE, s')
          else if t = 0 then (NO_OS_FAILURE, s')
          else wait_until_not_busy_loop xch (t - 1) (hd rx) s')"
  by (subst wait_until_not_busy_loop.simps) simp

lemma wait_until_not_busy_loop_done:
  "d \<noteq> 0x00 \<Longrightarrow> wait_until_not_busy_loop xch t d s = (NO_OS_SUCCESS, s)"
  by (subst wait_until_not_busy_loop.simps) simp

lemma wait_until_not_busy_loop_effect:
  "wait_until_not_busy_loop xch t 0x00 s = (r, s') \<Longrightarrow>
     desc s' = desc s \<and>
     (\<exists>new. wire s' = wire s @ new \<and> new \<noteq> [] \<and> polled 0x00 (unat t + 1) new \<and>
        (if r = NO_OS_SUCCESS then rx_bytes (last new) \<noteq> [0x00] \<and> transfer_ok (last new)
         else \<not> transfer_ok (last new) \<or> length new = unat t + 1))"
proof (induction t arbitrary: s rule: measure_induct_rule[where f = unat])
  case (less t)
  obtain r1 rx s1 where x: "spi_write_and_read xch (spi_desc (desc s)) [0xFF] s = (r1, rx, s1)"
    by (cases "spi_write_and_read xch (spi_desc (desc s)) [0xFF] s") auto
  note e = spi_write_and_read_effect[OF x]
  from e(3) obtain b1 where rx: "rx = [b1]" by (cases rx) auto
  let ?x = "\<lparr>tx_bytes = [0xFF], rx_bytes = [b1], transfer_ok = (r1 = NO_OS_SUCCESS)\<rparr>"
  have w1: "wire s1 = wire s @ [?x]" using e(2) rx by simp
  show ?case
  proof (cases "r1 \<noteq> NO_OS_SUCCESS \<or> t = 0")
    case True
    with less.prems x rx have res: "r = NO_OS_FAILURE" "s' = s1"
      by (auto simp: wait_until_not_busy_loop_busy split: if_splits)
    have "polled 0x00 (unat t + 1) [?x]" by (rule polled_single) simp
    with res w1 e(1) True show ?thesis
      by (intro conjI exI[of _ "[?x]"]) auto
  next
    case False
    then have ok: "r1 = NO_OS_SUCCESS" and t: "t \<noteq> 0" by auto
    have ut: "unat (t - 1) + 1 = unat t" using t by (simp add: unat_minus_one unat_gt_0)
    from less.prems x ok t rx
    have rec: "wait_until_not_busy_loop xch (t - 1) b1 s1 = (r, s')"
      by (simp add: wait_until_not_busy_loop_busy)
    show ?thesis
    proof (cases "b1 = 0x00")
      case True
      have lt: "unat (t - 1) < unat t" using ut by linarith
      from less.IH[OF lt, of s1] rec True
      obtain new where n: "desc s' = desc s1" "wire s' = wire s1 @ new" "new \<noteq> []"
        "polled 0x00 (unat (t - 1) + 1) new"
        "if r = NO_OS_SUCCESS then rx_bytes (last new) \<noteq> [0x00] \<and> transfer_ok (last new)
         else \<not> transfer_ok (last new) \<or> length new = unat (t - 1) + 1"
        by blast
      have p: "polled 0x00 (unat t + 1) (?x # new)"
        using polled_Cons[OF n(4) n(3)] ok True ut by simp
      have l: "last (?x # new) = last new" using n(3) by simp
      show ?thesis
        apply (intro conjI exI[of _ "?x # new"])
        using n e(1) w1 apply simp
        using n w1 apply simp
         apply simp
        apply (rule p)
        using n(5) l ut by (simp split: if_splits)
    next
      case False
      with rec have res: "r = NO_OS_SUCCESS" "s' = s1"
        by (simp_all add: wait_until_not_busy_loop_done)
      have "polled 0x00 (unat t + 1) [?x]" by (rule polled_single) simp
      with res w1 e(1) False ok show ?thesis
        by (intro conjI exI[of _ "[?x]"]) auto
    qed
  qed
qed

lemma timeout_ceiling: "unat WAIT_RESP_TIMEOUT + 1 = 2 ^ 25"
  by (simp add: WAIT_RESP_TIMEOUT_def)

text \<open>
  Claim C8. Both polling loops terminate for every behaviour of the pipe: the two
  functions are total, and a call makes at least one and at most \<open>2 ^ 25\<close> exchanges of
  one idle byte. \<^verbatim>\<open>wait_for_response\<close> succeeds only on a received byte other than 0xFF,
  \<^verbatim>\<open>wait_until_not_busy\<close> only on a received byte other than 0x00; each fails only when
  the pipe has failed or the ceiling of \<open>2 ^ 25\<close> exchanges is reached.
\<close>

theorem polling_loops_bounded:
  "(case wait_for_response xch s of
      (r, b, s') \<Rightarrow>
        desc s' = desc s \<and>
        (\<exists>new. wire s' = wire s @ new \<and> new \<noteq> [] \<and> polled 0xFF (2 ^ 25) new \<and>
           rx_bytes (last new) = [b] \<and>
           (if r = NO_OS_SUCCESS then b \<noteq> 0xFF \<and> transfer_ok (last new)
            else \<not> transfer_ok (last new) \<or> length new = 2 ^ 25))) \<and>
   (case wait_until_not_busy xch s of
      (r, s') \<Rightarrow>
        desc s' = desc s \<and>
        (\<exists>new. wire s' = wire s @ new \<and> new \<noteq> [] \<and> polled 0x00 (2 ^ 25) new \<and>
           (if r = NO_OS_SUCCESS then rx_bytes (last new) \<noteq> [0x00] \<and> transfer_ok (last new)
            else \<not> transfer_ok (last new) \<or> length new = 2 ^ 25)))"
proof -
  obtain r b s' where a: "wait_for_response xch s = (r, b, s')"
    by (cases "wait_for_response xch s") auto
  obtain r2 s2 where c: "wait_until_not_busy xch s = (r2, s2)"
    by (cases "wait_until_not_busy xch s") auto
  from a have "wait_for_response_loop xch WAIT_RESP_TIMEOUT 0xFF s = (r, b, s')"
    by (simp add: wait_for_response_def)
  note 1 = wait_for_response_loop_effect[OF this, unfolded timeout_ceiling]
  from c have "wait_until_not_busy_loop xch WAIT_RESP_TIMEOUT 0x00 s = (r2, s2)"
    by (simp add: wait_until_not_busy_def)
  note 2 = wait_until_not_busy_loop_effect[OF this, unfolded timeout_ceiling]
  show ?thesis unfolding a c using 1 2 by simp
qed

text \<open>The equations that run the driver on a scripted pipe.\<close>

lemmas run_pipe = spi_write_and_read_def script_pipe_def session_def Let_def
  wait_for_response_def wait_for_response_loop_idle wait_for_response_loop_done
  wait_until_not_busy_def wait_until_not_busy_loop_busy wait_until_not_busy_loop_done
  WAIT_RESP_TIMEOUT_def

theorem polling_loops_bounded_witness:
  "wait_for_response script_pipe (session 0 [0xFF, 0x01]) =
     (NO_OS_SUCCESS, 0x01,
      session 0 []\<lparr>wire := [\<lparr>tx_bytes = [0xFF], rx_bytes = [0xFF], transfer_ok = True\<rparr>,
                             \<lparr>tx_bytes = [0xFF], rx_bytes = [0x01], transfer_ok = True\<rparr>]\<rparr>) \<and>
   polled 0xFF (2 ^ 25) [\<lparr>tx_bytes = [0xFF], rx_bytes = [0xFF], transfer_ok = True\<rparr>,
                        \<lparr>tx_bytes = [0xFF], rx_bytes = [0x01], transfer_ok = True\<rparr>] \<and>
   wait_until_not_busy script_pipe (session 0 [0x00, 0x01]) =
     (NO_OS_SUCCESS,
      session 0 []\<lparr>wire := [\<lparr>tx_bytes = [0xFF], rx_bytes = [0x00], transfer_ok = True\<rparr>,
                             \<lparr>tx_bytes = [0xFF], rx_bytes = [0x01], transfer_ok = True\<rparr>]\<rparr>) \<and>
   polled 0x00 (2 ^ 25) [\<lparr>tx_bytes = [0xFF], rx_bytes = [0x00], transfer_ok = True\<rparr>,
                        \<lparr>tx_bytes = [0xFF], rx_bytes = [0x01], transfer_ok = True\<rparr>]"
  using polling_loops_bounded[where xch = script_pipe and s = "session 0 [0xFF, 0x01]"]
    polling_loops_bounded[where xch = script_pipe and s = "session 0 [0x00, 0x01]"]
  by (simp add: run_pipe)

subsection \<open>Every call leaves a later state of the same session\<close>

lemma extends_refl [simp]: "extends s s"
  by (simp add: extends_def)

lemma extends_trans: "extends a b \<Longrightarrow> extends b c \<Longrightarrow> extends a c"
  by (auto simp: extends_def)

lemma extends_set_buff [simp]: "extends (set_buff b s) s' = extends s s'"
  by (simp add: extends_def set_buff_def)

lemma extends_set_buff2 [simp]: "extends s (set_buff b s') = extends s s'"
  by (simp add: extends_def set_buff_def)

lemma spi_write_and_read_extends:
  "spi_write_and_read xch h buf s = (r, rx, s') \<Longrightarrow> extends s s'"
  using spi_write_and_read_effect[of xch h buf s r rx s'] by (auto simp: extends_def)

lemma spi_buff_extends: "spi_buff xch n s = (r, s') \<Longrightarrow> extends s s'"
  by (auto simp: spi_buff_def split: prod.splits dest: spi_write_and_read_extends)

lemma wait_for_response_extends:
  "wait_for_response xch s = (r, b, s') \<Longrightarrow> extends s s'"
  unfolding wait_for_response_def
  by (drule wait_for_response_loop_effect) (auto simp: extends_def)

lemma wait_until_not_busy_extends:
  "wait_until_not_busy xch s = (r, s') \<Longrightarrow> extends s s'"
  unfolding wait_until_not_busy_def
  by (drule wait_until_not_busy_loop_effect) (auto simp: extends_def)

lemmas basic_extends = spi_write_and_read_extends spi_buff_extends
  wait_for_response_extends wait_until_not_busy_extends

lemma send_command_body_extends:
  "send_command_body xch cd s = (r, cd', s') \<Longrightarrow> extends s s'"
  by (auto simp: send_command_body_def split: prod.splits if_splits
           dest!: basic_extends) (auto simp: extends_def)


lemma send_command_plain:
  "cmd cd AND BIT_APPLICATION_CMD = 0 \<Longrightarrow> send_command xch cd s = send_command_body xch cd s"
  by (subst send_command.simps) simp

lemma send_command_app:
  "cmd cd AND BIT_APPLICATION_CMD \<noteq> 0 \<Longrightarrow>
   send_command xch cd s =
     (case send_command_body xch
             \<lparr>cmd = CMD 55, arg = STUFF_ARG, response = [], response_len = R1_LEN\<rparr> s of
        (r, cmd_desc_local, s1) \<Rightarrow>
          if r \<noteq> NO_OS_SUCCESS then (NO_OS_FAILURE, cd, s1)
          else if response cmd_desc_local ! 0 \<noteq> R1_IDLE_STATE then (NO_OS_FAILURE, cd, s1)
          else send_command_body xch cd s1)"
  by (subst send_command.simps) (simp add: send_command_plain sd_consts)

lemma send_command_extends:
  "send_command xch cd s = (r, cd', s') \<Longrightarrow> extends s s'"
  by (cases "cmd cd AND BIT_APPLICATION_CMD = 0")
     (auto simp: send_command_plain send_command_app split: prod.splits if_splits
           dest!: send_command_body_extends, auto simp: extends_def)

lemma write_block_extends:
  "write_block xch data nb s = (r, data', s') \<Longrightarrow> extends s s'"
  by (auto simp: write_block_def Let_def split: prod.splits if_splits
           dest!: basic_extends) (auto simp: extends_def)

lemma read_block_extends:
  "read_block xch data s = (r, data', s') \<Longrightarrow> extends s s'"
  by (auto simp: read_block_def Let_def split: prod.splits if_splits
           dest!: basic_extends) (auto simp: extends_def)


lemma write_multiple_blocks_loop_step:
  assumes "i < nb"
    and "write_multiple_blocks_loop xch addr len nb i di data fb lb s = (r, d', s')"
  shows "\<exists>s1. extends s s1 \<and>
           (s' = s1 \<or>
            (\<exists>di' data' fb' lb'.
               write_multiple_blocks_loop xch addr len nb (i + 1) di' data' fb' lb' s1 = (r, d', s')))"
  using assms
  apply (subst (asm) write_multiple_blocks_loop.simps)
  apply (simp only: if_True Let_def)
  apply (auto split: if_splits prod.splits dest!: write_block_extends)
  done

lemma write_multiple_blocks_loop_extends:
  "write_multiple_blocks_loop xch addr len nb i di data fb lb s = (r, d', s') \<Longrightarrow> extends s s'"
proof (induction "unat nb - unat i" arbitrary: i di data fb lb s rule: less_induct)
  case less
  show ?case
  proof (cases "i < nb")
    case False
    with less.prems show ?thesis
      by (subst (asm) write_multiple_blocks_loop.simps) simp
  next
    case True
    then have dec: "unat nb - unat (i + 1) < unat nb - unat i"
      by (simp add: word_less_nat_alt unat_inc_less)
    from write_multiple_blocks_loop_step[OF True less.prems]
    obtain s1 where s1: "extends s s1"
      and c: "s' = s1 \<or> (\<exists>di' data' fb' lb'.
               write_multiple_blocks_loop xch addr len nb (i + 1) di' data' fb' lb' s1 = (r, d', s'))"
      by blast
    from c show ?thesis
    proof
      assume "s' = s1" with s1 show ?thesis by simp
    next
      assume "\<exists>di' data' fb' lb'.
               write_multiple_blocks_loop xch addr len nb (i + 1) di' data' fb' lb' s1 = (r, d', s')"
      then obtain di' data' fb' lb' where
        "write_multiple_blocks_loop xch addr len nb (i + 1) di' data' fb' lb' s1 = (r, d', s')"
        by blast
      from less.hyps[OF dec this] s1 show ?thesis by (rule extends_trans[rotated])
    qed
  qed
qed

lemma write_multiple_blocks_extends:
  "write_multiple_blocks xch data addr len fb lb s = (r, d', s') \<Longrightarrow> extends s s'"
  unfolding write_multiple_blocks_def by (rule write_multiple_blocks_loop_extends)

lemma read_multiple_blocks_loop_step:
  assumes "i < get_nb_of_blocks addr len"
    and "read_multiple_blocks_loop xch addr len i di data lbuff s = (r, d', s')"
  shows "\<exists>s1. extends s s1 \<and>
           (s' = s1 \<or>
            (\<exists>di' data' lbuff'.
               read_multiple_blocks_loop xch addr len (i + 1) di' data' lbuff' s1 = (r, d', s')))"
  using assms
  apply (subst (asm) read_multiple_blocks_loop.simps)
  apply (simp only: if_True Let_def)
  apply (auto split: if_splits prod.splits dest!: read_block_extends)
  done

lemma read_multiple_blocks_loop_extends:
  "read_multiple_blocks_loop xch addr len i di data lbuff s = (r, d', s') \<Longrightarrow> extends s s'"
proof (induction "unat (get_nb_of_blocks addr len) - unat i" arbitrary: i di data lbuff s
       rule: less_induct)
  case less
  show ?case
  proof (cases "i < get_nb_of_blocks addr len")
    case False
    with less.prems show ?thesis
      by (subst (asm) read_multiple_blocks_loop.simps) simp
  next
    case True
    then have dec: "unat (get_nb_of_blocks addr len) - unat (i + 1)
                    < unat (get_nb_of_blocks addr len) - unat i"
      by (simp add: word_less_nat_alt unat_inc_less)
    from read_multiple_blocks_loop_step[OF True less.prems]
    obtain s1 where s1: "extends s s1"
      and c: "s' = s1 \<or> (\<exists>di' data' lbuff'.
               read_multiple_blocks_loop xch addr len (i + 1) di' data' lbuff' s1 = (r, d', s'))"
      by blast
    from c show ?thesis
    proof
      assume "s' = s1" with s1 show ?thesis by simp
    next
      assume "\<exists>di' data' lbuff'.
               read_multiple_blocks_loop xch addr len (i + 1) di' data' lbuff' s1 = (r, d', s')"
      then obtain di' data' lbuff' where
        "read_multiple_blocks_loop xch addr len (i + 1) di' data' lbuff' s1 = (r, d', s')"
        by blast
      from less.hyps[OF dec this] s1 show ?thesis by (rule extends_trans[rotated])
    qed
  qed
qed

lemma read_multiple_blocks_extends:
  "read_multiple_blocks xch data addr len s = (r, d', s') \<Longrightarrow> extends s s'"
  unfolding read_multiple_blocks_def by (rule read_multiple_blocks_loop_extends)

lemma sd_read_extends:
  "sd_read xch data address len s = (r, data', s') \<Longrightarrow> extends s s'"
  by (auto simp: sd_read_def split: prod.splits if_splits option.splits
           dest!: send_command_extends read_multiple_blocks_extends)
     (auto simp: extends_def)

lemma read_scratch_block_extends:
  "read_scratch_block xch block address s = (b', s') \<Longrightarrow> extends s s'"
  by (auto simp: read_scratch_block_def split: prod.splits dest!: sd_read_extends)

lemma read_first_block_extends:
  "read_first_block xch address len fb s = (b', s') \<Longrightarrow> extends s s'"
  by (auto simp: read_first_block_def split: if_splits dest!: read_scratch_block_extends)

lemma read_last_block_extends:
  "read_last_block xch address len lb s = (b', s') \<Longrightarrow> extends s s'"
  by (auto simp: read_last_block_def split: if_splits dest!: read_scratch_block_extends)

lemma sd_write_blocks_extends:
  "sd_write_blocks xch d address len fb lb s = (r, data', s') \<Longrightarrow> extends s s'"
  by (auto simp: sd_write_blocks_def split: prod.splits if_splits
           dest!: send_command_extends write_multiple_blocks_extends basic_extends)
     (auto simp: extends_def)

lemma sd_write_extends:
  "sd_write xch data address len fb lb s = (r, data', s') \<Longrightarrow> extends s s'"
  by (auto simp: sd_write_def split: prod.splits if_splits option.splits
           dest!: read_first_block_extends read_last_block_extends sd_write_blocks_extends)
     (auto simp: extends_def)

section \<open>The claims on reading and writing\<close>

text \<open>
  Claim C10. Whether they succeed or fail, \<^verbatim>\<open>sd_read\<close> and \<^verbatim>\<open>sd_write\<close> leave the fields
  \<open>memory_size\<close> and \<open>spi_desc\<close> of the session descriptor as they were: the descriptor
  after the call is the descriptor before it, up to the scratch buffer.
\<close>

theorem read_write_frame:
  "(case sd_read xch data address len s of
      (r, d, s') \<Rightarrow> desc s' = (desc s)\<lparr>buff := buff (desc s')\<rparr>) \<and>
   (case sd_write xch data address len first_block last_block s of
      (r, d, s') \<Rightarrow> desc s' = (desc s)\<lparr>buff := buff (desc s')\<rparr>)"
proof -
  have eq: "desc s' = (desc s)\<lparr>buff := buff (desc s')\<rparr>" if "extends s s'" for s' :: "('a, 'b) machine"
    using that by (simp add: extends_def sd_desc.equality)
  obtain r d s1 where a: "sd_read xch data address len s = (r, d, s1)"
    by (cases "sd_read xch data address len s") auto
  obtain r2 d2 s2 where b: "sd_write xch data address len first_block last_block s = (r2, d2, s2)"
    by (cases "sd_write xch data address len first_block last_block s") auto
  show ?thesis
    unfolding a b using eq[OF sd_read_extends[OF a]] eq[OF sd_write_extends[OF b]] by simp
qed

lemma unat_add_no_wrap:
  "unat (a::64 word) + unat b < 2 ^ 64 \<Longrightarrow> unat (a + b) = unat a + unat b"
  by (simp add: unat_word_ariths)

lemma initial_checks_fail_iff:
  assumes "unat msize < 2 ^ 63"
  shows "initial_checks_fail data address len msize \<longleftrightarrow>
           data = None \<or> unat address + unat len > unat msize"
proof (cases "address \<le> msize \<and> len \<le> msize")
  case True
  then have "unat address \<le> unat msize" "unat len \<le> unat msize"
    by (simp_all add: word_le_nat_alt)
  with assms have "unat address + unat len < 2 ^ 64" by simp
  then have "unat (address + len) = unat address + unat len" by (rule unat_add_no_wrap)
  with True show ?thesis
    by (auto simp: initial_checks_fail_def word_less_nat_alt word_le_nat_alt)
next
  case False
  then show ?thesis
    by (auto simp: initial_checks_fail_def word_less_nat_alt word_le_nat_alt)
qed

text \<open>
  Claim C3. On a session whose \<open>memory_size\<close> is below \<open>2 ^ 63\<close> (\<^verbatim>\<open>sd_init\<close> stores at
  most \<open>2 ^ 40\<close>), a request with a NULL buffer or with \<open>address + len > memory_size\<close>
  makes \<^verbatim>\<open>sd_read\<close> and \<^verbatim>\<open>sd_write\<close> return failure with the machine untouched: no
  exchange on the pipe. A request with a buffer and \<open>address + len \<le> memory_size\<close> passes
  the initial checks. The sums are sums of natural numbers.
\<close>

theorem bounds_checked_before_wire:
  assumes "unat (memory_size (desc s)) < 2 ^ 63"
  shows "(data = None \<or> unat address + unat len > unat (memory_size (desc s)) \<longrightarrow>
            sd_read xch data address len s = (NO_OS_FAILURE, data, s) \<and>
            sd_write xch data address len first_block last_block s = (NO_OS_FAILURE, data, s)) \<and>
         (data \<noteq> None \<and> unat address + unat len \<le> unat (memory_size (desc s)) \<longrightarrow>
            \<not> initial_checks_fail data address len (memory_size (desc s)))"
  using initial_checks_fail_iff[OF assms, of data address len]
  by (auto simp: sd_read_def sd_write_def)

theorem bounds_checked_before_wire_witness:
  "sd_read script_pipe (Some []) 1000 25 (session 1024 []) = (NO_OS_FAILURE, Some [], session 1024 []) \<and>
   sd_write script_pipe (Some []) 1000 25 [] [] (session 1024 []) = (NO_OS_FAILURE, Some [], session 1024 []) \<and>
   sd_read script_pipe None 0 8 (session 1024 []) = (NO_OS_FAILURE, None, session 1024 []) \<and>
   \<not> initial_checks_fail (Some []) 1000 24 1024"
  using bounds_checked_before_wire[where s = "session 1024 ([]::byte list)" and data = "Some []"
          and address = 1000 and len = 25 and xch = script_pipe and first_block = "[]" and last_block = "[]"]
    bounds_checked_before_wire[where s = "session 1024 ([]::byte list)" and data = None
          and address = 0 and len = 8 and xch = script_pipe and first_block = "[]" and last_block = "[]"]
    bounds_checked_before_wire[where s = "session 1024 ([]::byte list)" and data = "Some []"
          and address = 1000 and len = 24 and xch = script_pipe and first_block = "[]" and last_block = "[]"]
  by (simp add: session_def)

section \<open>The command engine on the wire\<close>

lemma prepare_command_frame:
  "take CMD_LEN (prepare_command cd b) =
     [0xFF, cmd cd AND NOT BIT_APPLICATION_CMD,
      ucast (drop_bit 24 (arg cd)), ucast (drop_bit 16 (arg cd)), ucast (drop_bit 8 (arg cd)),
      ucast (arg cd),
      (if cmd cd = CMD 0 then 0x95 else if cmd cd = CMD 8 then 0x87 else 0xFF), 0xFF]"
  by (simp add: prepare_command_def memset_def CMD_LEN_def Let_def ucast_and_ff eval_nat_numeral)

lemma prepare_command_rest: "drop CMD_LEN (prepare_command cd b) = drop CMD_LEN b"
  by (simp add: prepare_command_def memset_def CMD_LEN_def Let_def drop_update_cancel)

lemma spi_buff_sent:
  "spi_buff xch n s = (r, s') \<Longrightarrow> sent s' = sent s @ [take n (buff (desc s))]"
  by (auto simp: spi_buff_def sent_def set_buff_def split: prod.splits
      dest!: spi_write_and_read_effect(2))

lemma extends_sent: "extends s s' \<Longrightarrow> \<exists>rest. sent s' = sent s @ rest"
  by (auto simp: extends_def sent_def)

lemma send_command_body_sent:
  assumes "send_command_body xch cd s = (r, cd', s')"
  shows "\<exists>rest. sent s' = sent s @ take CMD_LEN (prepare_command cd (buff (desc s))) # rest"
proof -
  obtain r1 s1 where x: "spi_buff xch CMD_LEN (set_buff (prepare_command cd (buff (desc s))) s) = (r1, s1)"
    by (cases "spi_buff xch CMD_LEN (set_buff (prepare_command cd (buff (desc s))) s)") auto
  have 1: "sent s1 = sent s @ [take CMD_LEN (prepare_command cd (buff (desc s)))]"
    using spi_buff_sent[OF x] by (simp add: set_buff_def sent_def)
  have "extends s1 s'"
    using assms x
    by (auto simp: send_command_body_def split: prod.splits if_splits dest!: basic_extends)
       (auto simp: extends_def)
  from extends_sent[OF this] 1 show ?thesis by auto
qed


lemma send_command_sent:
  assumes "send_command xch cd s = (r, cd', s')"
  shows "\<exists>rest. sent s' = sent s @
           take CMD_LEN (prepare_command
              (if cmd cd AND BIT_APPLICATION_CMD = 0 then cd
               else \<lparr>cmd = CMD 55, arg = STUFF_ARG, response = [], response_len = R1_LEN\<rparr>)
              (buff (desc s))) # rest"
proof (cases "cmd cd AND BIT_APPLICATION_CMD = 0")
  case True
  with assms send_command_body_sent[of xch cd s r cd' s'] show ?thesis
    by (simp add: send_command_plain)
next
  case False
  let ?c = "\<lparr>cmd = CMD 55, arg = STUFF_ARG, response = [], response_len = R1_LEN\<rparr>"
  obtain r1 c1 s1 where x: "send_command_body xch ?c s = (r1, c1, s1)"
    by (cases "send_command_body xch ?c s") auto
  from send_command_body_sent[OF x] obtain rest1 where
    1: "sent s1 = sent s @ take CMD_LEN (prepare_command ?c (buff (desc s))) # rest1" by blast
  have "extends s1 s'"
    using assms False x
    by (auto simp: send_command_app split: if_splits dest!: send_command_body_extends)
  from extends_sent[OF this] 1 False show ?thesis by auto
qed

text \<open>
  Claim C1, as amended. The exchange of a command is eight bytes, not six: the first
  emitted byte is the idle byte 0xFF, the byte after it is \<open>0x40 OR (idx AND 0x3F)\<close>, the
  next four are the argument with its most significant byte first
  (\<open>big_endian_bytes\<close>), then comes 0x95 for CMD0, 0x87 for CMD8 and 0xFF for any other
  command, and a last idle byte 0xFF. This holds for every command index up to 63,
  with or without the application bit; \<^verbatim>\<open>send_command\<close> starts with this exchange for a
  plain command and with the exchange of CMD55 for an application command.
\<close>

theorem command_exchange_layout:
  assumes "idx \<le> 63" and "cmd cd = CMD idx \<or> cmd cd = ACMD idx"
  shows "(case send_command_body xch cd s of
            (r, cd', s') \<Rightarrow>
              \<exists>rest. sent s' = sent s @
                command_frame idx (arg cd)
                  (if cmd cd = CMD 0 then 0x95 else if cmd cd = CMD 8 then 0x87 else 0xFF) # rest) \<and>
         (case send_command xch cd s of
            (r, cd', s') \<Rightarrow>
              \<exists>rest. sent s' = sent s @
                (if cmd cd = CMD idx
                 then command_frame idx (arg cd)
                        (if cmd cd = CMD 0 then 0x95 else if cmd cd = CMD 8 then 0x87 else 0xFF)
                 else command_frame 55 STUFF_ARG 0xFF) # rest)"
proof -
  have byte1: "cmd cd AND NOT BIT_APPLICATION_CMD = 0x40 OR (idx AND 0x3F)"
    using assms command_byte(1,2)[OF assms(1)] by (auto simp: sd_consts)
  have app: "cmd cd AND BIT_APPLICATION_CMD = 0 \<longleftrightarrow> cmd cd = CMD idx"
    using assms command_byte(3,4)[OF assms(1)] by (auto simp: sd_consts)
  have f: "take CMD_LEN (prepare_command cd b) =
             command_frame idx (arg cd)
               (if cmd cd = CMD 0 then 0x95 else if cmd cd = CMD 8 then 0x87 else 0xFF)" for b
    by (simp only: prepare_command_frame byte1 command_frame_def)
  have f55: "take CMD_LEN (prepare_command
               \<lparr>cmd = CMD 55, arg = STUFF_ARG, response = [], response_len = R1_LEN\<rparr> b) =
             command_frame 55 STUFF_ARG 0xFF" for b
    by (simp only: prepare_command_frame command_frame_def) (simp add: sd_consts)
  obtain r cd' s' where a: "send_command_body xch cd s = (r, cd', s')"
    by (cases "send_command_body xch cd s") auto
  obtain r2 cd2 s2 where b: "send_command xch cd s = (r2, cd2, s2)"
    by (cases "send_command xch cd s") auto
  show ?thesis
    unfolding a b
    using send_command_body_sent[OF a] send_command_sent[OF b] app
    by (auto simp: f f55)
qed

lemmas run_command =
  send_command_plain send_command_app send_command_body_def spi_buff_def set_buff_def
  prepare_command_frame prepare_command_rest sent_def
  BIT_APPLICATION_CMD_def CMD_def ACMD_def R1_READY_STATE_def R1_IDLE_STATE_def R1_LEN_def
  R3_LEN_def STUFF_ARG_def CMD8_ARG_def ACMD41_ARG_def

theorem command_exchange_layout_witness:
  "(17::byte) \<le> 63 \<and>
   (\<exists>rest. sent (snd (snd (send_command script_pipe
               \<lparr>cmd = CMD 17, arg = 0x01020304, response = [], response_len = R1_LEN\<rparr>
               (session 0 [0xFF, 0xFF, 0xFF, 0xFF, 0xFF, 0xFF, 0xFF, 0xFF, 0x00]))))
       = command_frame 17 0x01020304 0xFF # rest) \<and>
   command_frame 17 0x01020304 0xFF = [0xFF, 0x51, 0x01, 0x02, 0x03, 0x04, 0xFF, 0xFF]"
  using command_exchange_layout[where idx = 17 and xch = script_pipe
      and cd = "\<lparr>cmd = CMD 17, arg = 0x01020304, response = [], response_len = R1_LEN\<rparr>"
      and s = "session 0 [0xFF, 0xFF, 0xFF, 0xFF, 0xFF, 0xFF, 0xFF, 0xFF, 0x00]"]
  by (simp add: case_prod_beta command_frame_def CMD_def sent_def session_def)

text \<open>
  Claim C1 as stated fails: the first byte emitted for CMD0 is 0xFF, not 0x40.
\<close>

theorem first_byte_counterexample:
  "sent (snd (snd (send_command script_pipe
           \<lparr>cmd = CMD 0, arg = STUFF_ARG, response = [], response_len = R1_LEN\<rparr>
           (session 0 [0xFF, 0xFF, 0xFF, 0xFF, 0xFF, 0xFF, 0xFF, 0xFF, 0x01]))))
     = [[0xFF, 0x40, 0x00, 0x00, 0x00, 0x00, 0x95, 0xFF], [0xFF]] \<and>
   hd [0xFF, 0x40, 0x00, 0x00, 0x00, 0x00, 0x95, 0xFF] \<noteq> (0x40 OR (0 AND 0x3F) :: byte)"
  by (simp add: run_command run_pipe)

section \<open>Initialisation\<close>

lemmas run_init =
  sd_init_def sd_init_handshake_def cmd0_loop.simps acmd41_loop.simps memset_def
  CMD0_RETRY_NUMBER_def START_1_BLOCK_TOKEN_def BIT_CCS_def CSD_LEN_def

lemma sd_init_card_script:
  assumes "r1 \<noteq> 0xFF"
  shows "map_option (\<lambda>(r, s). (r, map_option (\<lambda>s. memory_size (desc s)) s))
           (sd_init script_pipe True (Some ()) True (card_script r1 ca cb cc) []) =
         Some (NO_OS_SUCCESS,
               Some (memory_size_of [0x40, 0x0E, 0x00, 0x32, 0x5B, 0x59, 0x00, ca, cb, cc]))"
  using assms
  by (simp add: card_script_def run_init run_command run_pipe memory_size_of_def c_size_of_def)


text \<open>
  Claim C5 (the code does not do what the claim says). \<^verbatim>\<open>sd_init\<close> does not look at the R1
  response to CMD9: on a card that answers CMD9 with 0x04 (illegal command) and then
  sends the token 0xFE and 18 bytes, initialisation succeeds.
\<close>

theorem csd_read_ignores_r1:
  "map_option fst (sd_init script_pipe True (Some ()) True (card_script 0x04 0x00 0x1F 0xFF) [])
     = Some NO_OS_SUCCESS"
proof -
  have "(0x04::byte) \<noteq> 0xFF" by simp
  from sd_init_card_script[OF this, of "0x00" "0x1F" "0xFF"] show ?thesis
    by (cases "sd_init script_pipe True (Some ()) True (card_script 0x04 0x00 0x1F 0xFF) []")
       (auto split: prod.splits)
qed

text \<open>
  Claim C7 (the code does not do what the claim says). \<^verbatim>\<open>sd_init\<close> masks byte 7 of the CSD
  with \<open>(1 << 5) - 1\<close>, not with 0x3F: on a card whose CSD has \<open>csd[7] = 0x20\<close> and
  \<open>csd[8] = csd[9] = 0\<close> it stores 524288 in \<open>memory_size\<close>, where the formula of the
  claim gives 1099512152064.
\<close>

theorem c_size_mask_loses_bit_21:
  "map_option (\<lambda>(r, s). (r, map_option (\<lambda>s. memory_size (desc s)) s))
     (sd_init script_pipe True (Some ()) True (card_script 0x00 0x20 0x00 0x00) [])
     = Some (NO_OS_SUCCESS, Some 524288) \<and>
   (ucast ((push_bit 16 (ucast (0x20::byte) AND 0x3F) OR push_bit 8 (ucast (0x00::byte))
            OR ucast (0x00::byte)) :: 32 word) + 1) * 512 * 1024 = (1099512152064 :: 64 word)"
proof -
  have "(0x00::byte) \<noteq> 0xFF" by simp
  from sd_init_card_script[OF this, of "0x20" "0x00" "0x00"] show ?thesis
    by (simp add: memory_size_of_def c_size_of_def DATA_BLOCK_LEN_def)
qed

text \<open>
  What \<^verbatim>\<open>sd_init\<close> does store: \<open>c_size\<close> has 21 bits, so \<open>memory_size\<close> is a positive
  multiple of 512 KiB of at most \<open>2 ^ 40\<close> bytes, computed from the bytes the last
  exchange has received.
\<close>

lemma c_size_of_bound: "unat (c_size_of b) < 2 ^ 21"
proof -
  have m: "(push_bit 5 1 - 1 :: 32 word) = mask 5" by (simp add: mask_eq_exp_minus_1)
  have "c_size_of b AND mask 21 = c_size_of b"
    unfolding c_size_of_def m
    by (rule bit_word_eqI) (auto simp: bit_simps dest: bit_imp_le_length)
  moreover have "c_size_of b AND mask 21 < 2 ^ 21"
    by (rule and_mask_less') simp
  ultimately have "c_size_of b < 2 ^ 21" by simp
  then show ?thesis by (simp add: word_less_nat_alt)
qed


lemma unat_memory_size_of: "unat (memory_size_of b) = (unat (c_size_of b) + 1) * 524288"
proof -
  have c: "unat (c_size_of b) < 2 ^ 21" by (rule c_size_of_bound)
  have u: "unat (ucast (c_size_of b) :: 64 word) = unat (c_size_of b)"
    using c by (simp add: unsigned_ucast_eq take_bit_nat_eq_self)
  have "(unat (c_size_of b) + 1) * 524288 < 2 ^ 64" using c by simp
  then show ?thesis
    using u by (simp add: memory_size_of_def DATA_BLOCK_LEN_def unat_word_ariths)
qed

lemma spi_buff_received:
  assumes "spi_buff xch n s = (r, s')" and "n \<le> length (buff (desc s))"
  shows "wire s' \<noteq> [] \<and> take n (buff (desc s')) = rx_bytes (last (wire s'))"
proof -
  obtain r1 rx s1 where
    x: "spi_write_and_read xch (spi_desc (desc s)) (take n (buff (desc s))) s = (r1, rx, s1)"
    by (cases "spi_write_and_read xch (spi_desc (desc s)) (take n (buff (desc s))) s") auto
  note e = spi_write_and_read_effect[OF x]
  from assms(1) x have "s' = set_buff (rx @ drop n (buff (desc s1))) s1"
    by (simp add: spi_buff_def)
  with e assms(2) show ?thesis by (simp add: set_buff_def)
qed

lemma sd_init_handshake_memory_size:
  assumes "sd_init_handshake xch s = Some (NO_OS_SUCCESS, s')"
  shows "memory_size (desc s') = memory_size_of (buff (desc s'))"
    and "wire s' \<noteq> [] \<and> take CSD_LEN (buff (desc s')) = rx_bytes (last (wire s'))"
proof -
  from assms obtain s7 s8 where
    x: "spi_buff xch CSD_LEN (set_buff (memset (buff (desc s7)) 0xFF CSD_LEN) s7) = (NO_OS_SUCCESS, s8)"
    and s': "s' = s8\<lparr>desc := (desc s8)\<lparr>memory_size := memory_size_of (buff (desc s8))\<rparr>\<rparr>"
    by (auto simp: sd_init_handshake_def split: prod.splits if_splits option.splits)
  show "memory_size (desc s') = memory_size_of (buff (desc s'))" by (simp add: s')
  have "CSD_LEN \<le> length (buff (desc (set_buff (memset (buff (desc s7)) 0xFF CSD_LEN) s7)))"
    by (simp add: set_buff_def memset_def)
  from spi_buff_received[OF x this]
  show "wire s' \<noteq> [] \<and> take CSD_LEN (buff (desc s')) = rx_bytes (last (wire s'))"
    by (simp add: s')
qed

lemma sd_init_initialized:
  assumes "sd_init xch out param allocated p w = Some (NO_OS_SUCCESS, Some s)"
  shows "initialized s" and "memory_size (desc s) = memory_size_of (buff (desc s))"
proof -
  from assms obtain s0 where h: "sd_init_handshake xch s0 = Some (NO_OS_SUCCESS, s)"
    by (auto simp: sd_init_def split: option.splits if_splits)
  show m: "memory_size (desc s) = memory_size_of (buff (desc s))"
    by (rule sd_init_handshake_memory_size(1)[OF h])
  have "unat (c_size_of (buff (desc s))) < 2 ^ 21" by (rule c_size_of_bound)
  then show "initialized s"
    unfolding initialized_def m unat_memory_size_of by simp
qed

section \<open>Addresses, blocks and offsets as natural numbers\<close>

lemma mask_511: "(511 :: 64 word) = mask 9"
  by (simp add: mask_eq_exp_minus_1)

lemma unat_and_511: "unat ((a::64 word) AND 511) = unat a mod 512"
  unfolding mask_511
  by (simp add: take_bit_eq_mask[symmetric] unsigned_take_bit_eq take_bit_eq_mod unat_mod)

lemma unat_shift_9: "unat (drop_bit 9 (a::64 word)) = unat a div 512"
  by (simp add: unat_drop_bit_eq drop_bit_eq_div unat_div)

lemma unat_and_not_511: "unat ((a::64 word) AND NOT 511) = 512 * (unat a div 512)"
proof -
  have "a AND NOT 511 = push_bit 9 (drop_bit 9 a)"
    unfolding mask_511 by (rule bit_word_eqI) (auto simp: bit_simps)
  moreover have "unat (push_bit 9 (drop_bit 9 a)) = 512 * (unat a div 512)"
  proof -
    have "512 * (unat a div 512) \<le> unat a" by simp
    moreover have "unat a < 2 ^ 64" using unsigned_less[of a] by simp
    ultimately have "512 * (unat a div 512) < 2 ^ 64" by linarith
    then show ?thesis
      by (simp add: unsigned_push_bit_eq unat_drop_bit_eq drop_bit_eq_div push_bit_eq_mult
          take_bit_nat_eq_self unat_div unat_word_ariths)
  qed
  ultimately show ?thesis by simp
qed

lemma unat_last_byte:
  assumes "len \<noteq> 0" and "unat address + unat len < 2 ^ 64"
  shows "unat (address + len - 1 :: 64 word) = unat address + unat len - 1"
proof -
  have "unat (address + len) = unat address + unat len"
    using assms(2) by (simp add: unat_word_ariths)
  moreover have "address + len \<noteq> 0"
    using assms calculation by (metis add_is_0 unat_eq_zero unsigned_0)
  ultimately show ?thesis by (simp add: unat_minus_one)
qed


lemma drop_bit_and_not_511: "drop_bit 9 ((x::64 word) AND NOT 511) = drop_bit 9 x"
  unfolding mask_511 by (rule bit_word_eqI) (auto simp: bit_simps dest: bit_imp_le_length)

lemma unat_get_nb_of_blocks:
  assumes "len \<noteq> 0" and "unat address + unat len \<le> 2 ^ 40"
  shows "unat (get_nb_of_blocks address len) =
           (unat address + unat len - 1) div 512 - unat address div 512 + 1"
proof -
  let ?A = "unat address" and ?L = "unat len"
  let ?E = "?A + ?L - 1"
  have L: "0 < ?L" using assms(1) by (simp add: unat_gt_0)
  have e: "unat (address + len - 1) = ?E"
    using assms by (intro unat_last_byte) simp_all
  have le: "?A div 512 \<le> ?E div 512" using L by (intro div_le_mono) simp
  have hi: "unat (drop_bit 9 (address + len - 1)) = ?E div 512" by (simp add: unat_shift_9 e)
  have lo: "unat (drop_bit 9 address) = ?A div 512" by (rule unat_shift_9)
  have "drop_bit 9 address \<le> drop_bit 9 (address + len - 1)"
    using le by (simp add: word_le_nat_alt hi lo)
  then have d: "unat (drop_bit 9 (address + len - 1) - drop_bit 9 address) = ?E div 512 - ?A div 512"
    by (simp add: unat_sub hi lo)
  have b: "?E div 512 - ?A div 512 + 1 < 2 ^ 32"
  proof -
    have "?E div 512 \<le> 2 ^ 40 div 512" using assms(2) by (intro div_le_mono) simp
    then show ?thesis by simp
  qed
  then have "?E div 512 - ?A div 512 + 1 < 2 ^ 64" by simp
  then have "unat (drop_bit 9 (address + len - 1) - drop_bit 9 address + 1) = ?E div 512 - ?A div 512 + 1"
    using d by (simp add: unat_word_ariths)
  then show ?thesis
    using b by (simp add: get_nb_of_blocks_def DATA_BLOCK_BITS_def unsigned_ucast_eq take_bit_nat_eq_self)
qed

lemma unat_block_argument:
  assumes "unat address \<le> 2 ^ 40"
  shows "unat (ucast (drop_bit DATA_BLOCK_BITS (address::64 word)) :: 32 word) = unat address div 512"
proof -
  have "unat address div 512 \<le> 2 ^ 40 div 512" using assms by (intro div_le_mono) simp
  then have "unat address div 512 < 2 ^ 32" by simp
  then show ?thesis
    by (simp add: DATA_BLOCK_BITS_def unsigned_ucast_eq unat_shift_9 take_bit_nat_eq_self)
qed

lemma need_first_block_iff:
  "need_first_block address len \<longleftrightarrow> unat address mod 512 \<noteq> 0 \<or> unat len < 512"
proof -
  have "(address AND 511 = 0) \<longleftrightarrow> unat address mod 512 = 0"
    using unat_and_511[of address] by (metis unat_eq_zero)
  then show ?thesis
    by (auto simp: need_first_block_def MASK_ADDR_IN_BLOCK_def DATA_BLOCK_LEN_def word_less_nat_alt)
qed


section \<open>The commands of a read and of a write on the wire\<close>

lemma data_command_sent:
  assumes "send_command xch \<lparr>cmd = CMD idx, arg = a, response = rs, response_len = n\<rparr> s = (r, cd', s')"
    and "idx = 17 \<or> idx = 18 \<or> idx = 24 \<or> idx = 25"
  shows "\<exists>rest. sent s' = sent s @ command_frame idx a 0xFF # rest"
proof -
  let ?cd = "\<lparr>cmd = CMD idx, arg = a, response = rs, response_len = n\<rparr>"
  from assms(2) have p: "cmd ?cd AND BIT_APPLICATION_CMD = 0"
    by (auto simp: sd_consts)
  from assms(2) have f: "take CMD_LEN (prepare_command ?cd b) = command_frame idx a 0xFF" for b
    unfolding prepare_command_frame command_frame_def by (auto simp: sd_consts)
  from send_command_sent[OF assms(1)] show ?thesis
    by (simp only: p simp_thms if_True f)
qed

lemma sd_read_sent:
  assumes "\<not> initial_checks_fail data address len (memory_size (desc s))"
    and "sd_read xch data address len s = (r, d', s')"
  shows "\<exists>rest. sent s' = sent s @
           command_frame (if get_nb_of_blocks address len = 1 then 17 else 18)
             (ucast (drop_bit DATA_BLOCK_BITS address)) 0xFF # rest"
proof -
  let ?idx = "if get_nb_of_blocks address len = 1 then 17 else 18 :: byte"
  let ?cd = "\<lparr>cmd = CMD ?idx, arg = ucast (drop_bit DATA_BLOCK_BITS address),
              response = [], response_len = R1_LEN\<rparr>"
  from assms(1) obtain d where d: "data = Some d" by (auto simp: initial_checks_fail_def)
  obtain r1 cd1 s1 where x: "send_command xch ?cd s = (r1, cd1, s1)"
    by (cases "send_command xch ?cd s") auto
  have "?idx = 17 \<or> ?idx = 18 \<or> ?idx = 24 \<or> ?idx = 25" by simp
  from data_command_sent[OF x this] obtain rest1 where
    1: "sent s1 = sent s @ command_frame ?idx (ucast (drop_bit DATA_BLOCK_BITS address)) 0xFF # rest1"
    by blast
  have c: "(if get_nb_of_blocks address len = 1 then CMD 17 else CMD 18) = CMD ?idx" by simp
  have "extends s1 s'"
    using assms d x unfolding sd_read_def c
    by (auto split: prod.splits if_splits
          dest!: send_command_extends read_multiple_blocks_extends)
       (auto simp: extends_def)
  from extends_sent[OF this] 1 show ?thesis by auto
qed

lemma sd_write_blocks_sent:
  assumes "sd_write_blocks xch d address len fb lb s = (r, d', s')"
  shows "\<exists>rest. sent s' = sent s @
           command_frame (if get_nb_of_blocks address len = 1 then 24 else 25)
             (ucast (drop_bit DATA_BLOCK_BITS address)) 0xFF # rest"
proof -
  let ?idx = "if get_nb_of_blocks address len = 1 then 24 else 25 :: byte"
  have c: "write_command address len =
           \<lparr>cmd = CMD ?idx, arg = ucast (drop_bit DATA_BLOCK_BITS address),
            response = [], response_len = R1_LEN\<rparr>"
    by (simp add: write_command_def)
  obtain r1 cd1 s1 where x: "send_command xch (write_command address len) s = (r1, cd1, s1)"
    by (cases "send_command xch (write_command address len) s") auto
  have "?idx = 17 \<or> ?idx = 18 \<or> ?idx = 24 \<or> ?idx = 25" by simp
  from data_command_sent[OF x[unfolded c] this] obtain rest1 where
    1: "sent s1 = sent s @ command_frame ?idx (ucast (drop_bit DATA_BLOCK_BITS address)) 0xFF # rest1"
    by blast
  have "extends s1 s'"
    using assms x unfolding sd_write_blocks_def
    by (auto split: prod.splits if_splits
          dest!: send_command_extends write_multiple_blocks_extends basic_extends)
       (auto simp: extends_def)
  from extends_sent[OF this] 1 show ?thesis by auto
qed

lemma sd_write_phases:
  assumes "\<not> initial_checks_fail (Some d) address len (memory_size (desc s))"
  shows "sd_write xch (Some d) address len first_block last_block s =
           (case read_first_block xch address len first_block s of
              (first_block', s1) \<Rightarrow>
                (case read_last_block xch address len last_block s1 of
                   (last_block', s2) \<Rightarrow>
                     sd_write_blocks xch d address len first_block' last_block' s2))"
  using assms by (simp add: sd_write_def)

lemma initialized_bounds:
  assumes "initialized s"
  shows "unat (memory_size (desc s)) < 2 ^ 63" and "unat (memory_size (desc s)) \<le> 2 ^ 40"
    and "unat (memory_size (desc s)) mod 512 = 0"
  using assms by (simp_all add: initialized_def)

lemma block_in_bounds:
  assumes "initialized s" and "unat x < unat (memory_size (desc s))"
  shows "\<not> initial_checks_fail (Some blk) (x AND MASK_BLOCK_NUMBER) (of_nat DATA_BLOCK_LEN)
             (memory_size (desc s))"
    and "get_nb_of_blocks (x AND MASK_BLOCK_NUMBER) (of_nat DATA_BLOCK_LEN) = 1"
proof -
  let ?M = "unat (memory_size (desc s))" and ?X = "unat x"
  note i = initialized_bounds[OF assms(1)]
  have b: "unat (x AND MASK_BLOCK_NUMBER) = 512 * (?X div 512)"
    unfolding MASK_BLOCK_NUMBER_def MASK_ADDR_IN_BLOCK_def by (rule unat_and_not_511)
  have l: "unat (of_nat DATA_BLOCK_LEN :: 64 word) = 512" by (simp add: DATA_BLOCK_LEN_def)
  have M: "?M = (?M div 512) * 512" using i(3) div_mult_mod_eq[of ?M 512] by linarith
  have "?X div 512 < ?M div 512"
    using assms(2) M by (metis div_less_iff_less_mult zero_less_numeral)
  then have "512 * (?X div 512) + 512 \<le> (?M div 512) * 512" by simp
  with M have in_b: "512 * (?X div 512) + 512 \<le> ?M" by simp
  show "\<not> initial_checks_fail (Some blk) (x AND MASK_BLOCK_NUMBER) (of_nat DATA_BLOCK_LEN)
             (memory_size (desc s))"
    using in_b by (simp add: initial_checks_fail_iff[OF i(1)] b l)
  have nz: "(of_nat DATA_BLOCK_LEN :: 64 word) \<noteq> 0" by (simp add: DATA_BLOCK_LEN_def)
  have "unat (x AND MASK_BLOCK_NUMBER) + unat (of_nat DATA_BLOCK_LEN :: 64 word) \<le> 2 ^ 40"
    using in_b i(2) by (simp add: b l)
  from unat_get_nb_of_blocks[OF nz this]
  have "unat (get_nb_of_blocks (x AND MASK_BLOCK_NUMBER) (of_nat DATA_BLOCK_LEN)) = 1"
    by (simp add: b l)
  then show "get_nb_of_blocks (x AND MASK_BLOCK_NUMBER) (of_nat DATA_BLOCK_LEN) = 1"
    by (simp add: word_unat_eq_iff)
qed

lemma read_scratch_block_sent:
  assumes "initialized s" and "unat x < unat (memory_size (desc s))"
    and "read_scratch_block xch blk (x AND MASK_BLOCK_NUMBER) s = (b', s')"
  shows "\<exists>rest. sent s' = sent s @
           command_frame 17 (ucast (drop_bit DATA_BLOCK_BITS x)) 0xFF # rest"
proof -
  obtain r d1 where
    x: "sd_read xch (Some blk) (x AND MASK_BLOCK_NUMBER) (of_nat DATA_BLOCK_LEN) s = (r, d1, s')"
    using assms(3) by (auto simp: read_scratch_block_def split: prod.splits)
  have a: "drop_bit DATA_BLOCK_BITS (x AND MASK_BLOCK_NUMBER) = drop_bit DATA_BLOCK_BITS x"
    by (simp only: DATA_BLOCK_BITS_def MASK_BLOCK_NUMBER_def MASK_ADDR_IN_BLOCK_def
        drop_bit_and_not_511)
  from sd_read_sent[OF block_in_bounds(1)[OF assms(1,2)] x] show ?thesis
    by (simp only: block_in_bounds(2)[OF assms(1,2)] simp_thms if_True a)
qed

text \<open>
  Claim C4. On an initialised session, for a request with \<open>len > 0\<close> and
  \<open>address + len \<le> memory_size\<close>: the number of blocks the driver computes is
  \<open>(address + len - 1) div 512 - address div 512 + 1\<close>; the 32-bit argument of the command
  is \<open>address div 512\<close>, without truncation; \<^verbatim>\<open>sd_read\<close> begins with the exchange of CMD17
  when the number of blocks is 1 and of CMD18 otherwise; \<^verbatim>\<open>sd_write\<close>, once its
  preliminary reads are over, goes on with the exchange of CMD24 when the number of
  blocks is 1 and of CMD25 otherwise; each with that argument.
\<close>

theorem block_commands:
  assumes "initialized s"
    and "unat address + unat len \<le> unat (memory_size (desc s))"
    and "len \<noteq> 0"
  shows "unat (get_nb_of_blocks address len) =
           (unat address + unat len - 1) div 512 - unat address div 512 + 1 \<and>
         unat (ucast (drop_bit DATA_BLOCK_BITS address) :: 32 word) = unat address div 512 \<and>
         (case sd_read xch (Some d) address len s of
            (r, d', s') \<Rightarrow>
              \<exists>rest. sent s' = sent s @
                command_frame (if get_nb_of_blocks address len = 1 then 17 else 18)
                  (ucast (drop_bit DATA_BLOCK_BITS address)) 0xFF # rest) \<and>
         (case read_first_block xch address len first_block s of
            (first_block', s1) \<Rightarrow>
              (case read_last_block xch address len last_block s1 of
                 (last_block', s2) \<Rightarrow>
                   (case sd_write xch (Some d) address len first_block last_block s of
                      (r, d', s') \<Rightarrow>
                        \<exists>rest. sent s' = sent s2 @
                          command_frame (if get_nb_of_blocks address len = 1 then 24 else 25)
                            (ucast (drop_bit DATA_BLOCK_BITS address)) 0xFF # rest)))"
proof -
  note i = initialized_bounds[OF assms(1)]
  have ok: "\<not> initial_checks_fail (Some d) address len (memory_size (desc s))"
    using assms(2) by (simp add: initial_checks_fail_iff[OF i(1)])
  have le: "unat address + unat len \<le> 2 ^ 40" "unat address \<le> 2 ^ 40"
    using assms(2) i(2) by simp_all
  obtain r d1 s1 where a: "sd_read xch (Some d) address len s = (r, d1, s1)"
    by (cases "sd_read xch (Some d) address len s") auto
  obtain fb' t1 where b: "read_first_block xch address len first_block s = (fb', t1)"
    by (cases "read_first_block xch address len first_block s") auto
  obtain lb' t2 where c: "read_last_block xch address len last_block t1 = (lb', t2)"
    by (cases "read_last_block xch address len last_block t1") auto
  obtain r2 d2 s2 where w: "sd_write_blocks xch d address len fb' lb' t2 = (r2, d2, s2)"
    by (cases "sd_write_blocks xch d address len fb' lb' t2") auto
  have w': "sd_write xch (Some d) address len first_block last_block s = (r2, d2, s2)"
    by (simp add: sd_write_phases[OF ok] b c w)
  show ?thesis
    using unat_get_nb_of_blocks[OF assms(3) le(1)] unat_block_argument[OF le(2)]
      sd_read_sent[OF ok a] sd_write_blocks_sent[OF w]
    by (simp add: a b c w')
qed

theorem block_commands_witness:
  "initialized (session 1024 []) \<and>
   unat (500::64 word) + unat (30::64 word) \<le> unat (memory_size (desc (session 1024 []))) \<and>
   unat (get_nb_of_blocks 500 30) = 2 \<and>
   (\<exists>rest. sent (snd (snd (sd_read script_pipe (Some []) 500 30 (session 1024 []))))
             = command_frame 18 0 0xFF # rest)"
  using block_commands[where s = "session 1024 []" and address = 500 and len = 30
      and xch = script_pipe and d = "[]" and first_block = "[]" and last_block = "[]"]
  by (simp add: initialized_def session_def sent_def case_prod_beta DATA_BLOCK_BITS_def
      get_nb_of_blocks_def)

subsection \<open>A request of length zero\<close>

lemma pred_div_512:
  fixes A :: nat
  shows "A mod 512 \<noteq> 0 \<Longrightarrow> (A - Suc 0) div 512 = A div 512"
    and "0 < A \<Longrightarrow> A mod 512 = 0 \<Longrightarrow>
           (A - Suc 0) div 512 = A div 512 - Suc 0 \<and> (A - Suc 0) mod 512 = 511 \<and> 0 < A div 512"
proof -
  define q where "q = A div 512"
  define r where "r = A mod 512"
  have s: "A = 512 * q + r" and m: "r < 512" by (simp_all add: q_def r_def)
  {
    assume "A mod 512 \<noteq> 0"
    then have "0 < r" by (simp add: r_def)
    then have "A - Suc 0 = r - Suc 0 + q * 512" "r - Suc 0 < 512" using s m by simp_all
    then have "(A - Suc 0) div 512 = q" by simp
    then show "(A - Suc 0) div 512 = A div 512" by (simp add: q_def)
  }
  {
    assume a: "0 < A" "A mod 512 = 0"
    then have r: "r = 0" by (simp add: r_def)
    with a s have q: "0 < q" by simp
    then obtain p where p: "q = Suc p" by (cases q) auto
    have e: "A - Suc 0 = 511 + p * 512" using s r p by simp
    have "(A - Suc 0) div 512 = p" "(A - Suc 0) mod 512 = 511" unfolding e by simp_all
    with p q show "(A - Suc 0) div 512 = A div 512 - Suc 0 \<and> (A - Suc 0) mod 512 = 511 \<and>
                   0 < A div 512" by (simp add: q_def)
  }
qed

lemma zero_length_blocks:
  "get_nb_of_blocks address 0 = (if unat address mod 512 = 0 then 0 else 1)"
  "\<not> need_last_block address 0"
proof -
  let ?A = "unat address"
  have both: "get_nb_of_blocks address 0 = (if ?A mod 512 = 0 then 0 else 1) \<and>
              \<not> need_last_block address 0"
  proof (cases "address = 0")
    case True
    then show ?thesis
      by (simp add: get_nb_of_blocks_def need_last_block_def sd_consts mask_eq_exp_minus_1)
  next
    case False
    then have A: "0 < ?A" by (simp add: unat_gt_0)
    have e: "unat (address - 1) = ?A - 1" using False by (simp add: unat_minus_one)
    show ?thesis
    proof (cases "?A mod 512 = 0")
      case False
      have d: "drop_bit 9 (address - 1) = drop_bit 9 address"
        by (simp add: word_unat_eq_iff unat_shift_9 e pred_div_512(1)[OF False])
      have "unat ((address - 1) AND NOT 511) = unat (address AND NOT 511)"
        unfolding unat_and_not_511 e using pred_div_512(1)[OF False] by simp
      then have "(address - 1) AND NOT 511 = address AND NOT 511"
        by (simp only: word_unat_eq_iff)
      then show ?thesis
        using False d
        by (simp add: get_nb_of_blocks_def need_last_block_def DATA_BLOCK_BITS_def
            MASK_BLOCK_NUMBER_def MASK_ADDR_IN_BLOCK_def)
    next
      case True
      note p = pred_div_512(2)[OF A True]
      have nz: "drop_bit 9 address \<noteq> 0"
        using p unat_shift_9[of address] by auto
      have d: "drop_bit 9 (address - 1) = drop_bit 9 address - 1"
        using p by (simp add: word_unat_eq_iff unat_shift_9 e unat_minus_one[OF nz])
      have "(address - 1) AND 511 = 511"
        using p by (simp add: word_unat_eq_iff unat_and_511 e)
      then show ?thesis
        using True d
        by (simp add: get_nb_of_blocks_def need_last_block_def DATA_BLOCK_BITS_def
            MASK_ADDR_IN_BLOCK_def)
    qed
  qed
  from both show "get_nb_of_blocks address 0 = (if unat address mod 512 = 0 then 0 else 1)"
    and "\<not> need_last_block address 0" by simp_all
qed

text \<open>
  A block that starts at \<open>memory_size\<close> does not pass the initial checks of a read.
\<close>

lemma block_at_memory_size_rejected:
  assumes "initialized s"
  shows "initial_checks_fail (Some blk) (memory_size (desc s) AND MASK_BLOCK_NUMBER)
           (of_nat DATA_BLOCK_LEN) (memory_size (desc s))"
proof -
  let ?M = "unat (memory_size (desc s))"
  note i = initialized_bounds[OF assms]
  have b: "unat (memory_size (desc s) AND MASK_BLOCK_NUMBER) = 512 * (?M div 512)"
    unfolding MASK_BLOCK_NUMBER_def MASK_ADDR_IN_BLOCK_def by (rule unat_and_not_511)
  have l: "unat (of_nat DATA_BLOCK_LEN :: 64 word) = 512" by (simp add: DATA_BLOCK_LEN_def)
  have M: "?M = 512 * (?M div 512)" using i(3) div_mult_mod_eq[of ?M 512] by linarith
  have "?M < 512 * (?M div 512) + 512" using M by linarith
  then show ?thesis
    by (simp add: initial_checks_fail_iff[OF i(1)] b l)
qed

text \<open>
  Claim C2, as amended. On an initialised session, a request of length zero at an
  address up to \<open>memory_size\<close>, with a buffer, passes the initial checks, and it is not
  a no-op. \<^verbatim>\<open>sd_read\<close> begins with the exchange of CMD18 when the address is a multiple
  of 512 (the driver computes zero blocks) and of CMD17 otherwise. \<^verbatim>\<open>sd_write\<close> first
  reads the first block: below \<open>memory_size\<close> the exchange of CMD17 for the block of the
  address is on the wire; at \<open>memory_size\<close> itself that read is refused by its own
  initial checks, and block and machine stay as they were. It reads no last block, and
  goes on with the exchange of CMD25 when the address is a multiple of 512 and of CMD24
  otherwise. The argument of each of these commands is \<open>address div 512\<close>, without
  truncation. Whether the call then succeeds is the card's doing.
\<close>

theorem zero_length_issues_commands:
  assumes "initialized s" and "address \<le> memory_size (desc s)"
  shows "\<not> initial_checks_fail (Some d) address 0 (memory_size (desc s)) \<and>
         unat (ucast (drop_bit DATA_BLOCK_BITS address) :: 32 word) = unat address div 512 \<and>
         (case sd_read xch (Some d) address 0 s of
            (r, d', s') \<Rightarrow>
              \<exists>rest. sent s' = sent s @
                command_frame (if unat address mod 512 = 0 then 18 else 17)
                  (ucast (drop_bit DATA_BLOCK_BITS address)) 0xFF # rest) \<and>
         (case read_first_block xch address 0 first_block s of
            (first_block', s1) \<Rightarrow>
              (if address < memory_size (desc s)
               then \<exists>rest. sent s1 = sent s @
                      command_frame 17 (ucast (drop_bit DATA_BLOCK_BITS address)) 0xFF # rest
               else first_block' = first_block \<and> s1 = s) \<and>
              read_last_block xch address 0 last_block s1 = (last_block, s1) \<and>
              (case sd_write xch (Some d) address 0 first_block last_block s of
                 (r, d', s') \<Rightarrow>
                   \<exists>rest. sent s' = sent s1 @
                     command_frame (if unat address mod 512 = 0 then 25 else 24)
                       (ucast (drop_bit DATA_BLOCK_BITS address)) 0xFF # rest))"
proof -
  note ib = initialized_bounds[OF assms(1)]
  have ok: "\<not> initial_checks_fail (Some d) address 0 (memory_size (desc s))"
    using assms(2) by (simp add: initial_checks_fail_def not_less)
  have a40: "unat address \<le> 2 ^ 40"
    using assms(2) ib(2) by (simp add: word_le_nat_alt)
  obtain r d1 s1 where a: "sd_read xch (Some d) address 0 s = (r, d1, s1)"
    by (cases "sd_read xch (Some d) address 0 s") auto
  obtain fb' t1 where b: "read_first_block xch address 0 first_block s = (fb', t1)"
    by (cases "read_first_block xch address 0 first_block s") auto
  have nf: "need_first_block address 0"
    by (simp add: need_first_block_iff)
  from b nf have rs:
    "read_scratch_block xch first_block (address AND MASK_BLOCK_NUMBER) s = (fb', t1)"
    by (simp add: read_first_block_def)
  have first: "if address < memory_size (desc s)
               then \<exists>rest. sent t1 = sent s @
                      command_frame 17 (ucast (drop_bit DATA_BLOCK_BITS address)) 0xFF # rest
               else fb' = first_block \<and> t1 = s"
  proof (cases "address < memory_size (desc s)")
    case True
    then have "unat address < unat (memory_size (desc s))" by (simp add: word_less_nat_alt)
    from read_scratch_block_sent[OF assms(1) this rs] True show ?thesis by simp
  next
    case False
    with assms(2) have e: "address = memory_size (desc s)" by simp
    from rs block_at_memory_size_rejected[OF assms(1), of first_block] False
    show ?thesis
      by (simp add: e read_scratch_block_def sd_read_def)
  qed
  have c: "read_last_block xch address 0 last_block t1 = (last_block, t1)"
    by (simp add: read_last_block_def zero_length_blocks(2))
  obtain r2 d2 s2 where w: "sd_write_blocks xch d address 0 fb' last_block t1 = (r2, d2, s2)"
    by (cases "sd_write_blocks xch d address 0 fb' last_block t1") auto
  have w': "sd_write xch (Some d) address 0 first_block last_block s = (r2, d2, s2)"
    by (simp add: sd_write_phases[OF ok] b c w)
  have i: "(if get_nb_of_blocks address 0 = 1 then x else y) =
           (if unat address mod 512 = 0 then y else x)" for x y :: byte
    by (simp add: zero_length_blocks(1))
  show ?thesis
    using ok unat_block_argument[OF a40] sd_read_sent[OF ok a] sd_write_blocks_sent[OF w]
      first c
    by (simp add: a b w' i)
qed

text \<open>The equations that run a read or a write on a concrete pipe.\<close>

lemmas run_read =
  sd_read_def initial_checks_fail_def get_nb_of_blocks_def DATA_BLOCK_BITS_def
  read_multiple_blocks_def read_multiple_blocks_loop.simps
  sd_write_def need_first_block_def need_last_block_def read_first_block_def
  read_last_block_def read_scratch_block_def sd_write_blocks_def write_command_def
  write_multiple_blocks_def write_multiple_blocks_loop.simps
  MASK_ADDR_IN_BLOCK_def MASK_BLOCK_NUMBER_def DATA_BLOCK_LEN_def broken_pipe_def

text \<open>
  Claim C2 as stated fails: a read of length zero at address 0 succeeds on a card that
  answers 0x00 to each command, after the exchanges of CMD18 and CMD12; a write of
  length zero at address 0 puts the frames of CMD17 and CMD25 on a pipe whose every
  exchange fails.
\<close>

theorem zero_length_counterexample:
  "fst (sd_read script_pipe (Some []) 0 0
          (session 1024 [0xFF, 0xFF, 0xFF, 0xFF, 0xFF, 0xFF, 0xFF, 0xFF, 0x00,
                         0xFF, 0xFF, 0xFF, 0xFF, 0xFF, 0xFF, 0xFF, 0xFF, 0x00]))
     = NO_OS_SUCCESS \<and>
   sent (snd (snd (sd_read script_pipe (Some []) 0 0
          (session 1024 [0xFF, 0xFF, 0xFF, 0xFF, 0xFF, 0xFF, 0xFF, 0xFF, 0x00,
                         0xFF, 0xFF, 0xFF, 0xFF, 0xFF, 0xFF, 0xFF, 0xFF, 0x00]))))
     = [[0xFF, 0x52, 0x00, 0x00, 0x00, 0x00, 0xFF, 0xFF], [0xFF],
        [0xFF, 0x4C, 0x00, 0x00, 0x00, 0x00, 0xFF, 0xFF], [0xFF]] \<and>
   sent (snd (snd (sd_write broken_pipe (Some []) 0 0 [] [] (session 1024 ()))))
     = [[0xFF, 0x51, 0x00, 0x00, 0x00, 0x00, 0xFF, 0xFF],
        [0xFF, 0x59, 0x00, 0x00, 0x00, 0x00, 0xFF, 0xFF]]"
  by (simp add: run_read run_command run_pipe mask_eq_exp_minus_1)

text \<open>
  On a session of 1024 bytes and a pipe whose every exchange fails: a read of length
  zero at 512 sends CMD18; a write of length zero at 512 sends CMD17 for block 1, then
  CMD25; a write of length zero at 1024 sends CMD25 only.
\<close>

theorem zero_length_issues_commands_witness:
  "initialized (session 1024 ()) \<and>
   (512::64 word) \<le> memory_size (desc (session 1024 ())) \<and>
   (1024::64 word) \<le> memory_size (desc (session 1024 ())) \<and>
   sent (snd (snd (sd_read broken_pipe (Some []) 512 0 (session 1024 ()))))
     = [command_frame 18 1 0xFF] \<and>
   sent (snd (snd (sd_write broken_pipe (Some []) 512 0 [] [] (session 1024 ()))))
     = [command_frame 17 1 0xFF, command_frame 25 1 0xFF] \<and>
   sent (snd (snd (sd_write broken_pipe (Some []) 1024 0 [] [] (session 1024 ()))))
     = [command_frame 25 2 0xFF]"
  using zero_length_issues_commands[where s = "session 1024 ()" and address = 512
      and xch = broken_pipe and d = "[]" and first_block = "[]" and last_block = "[]"]
    zero_length_issues_commands[where s = "session 1024 ()" and address = 1024
      and xch = broken_pipe and d = "[]" and first_block = "[]" and last_block = "[]"]
  by (simp add: run_read run_command run_pipe command_frame_def initialized_def
      mask_eq_exp_minus_1)

section \<open>The preliminary reads of a write\<close>








end
